theory Spec2Isabelle
  imports Complex_Main "HOL-Library.Log_Nat"
begin

chapter \<open>The cloth flattener: a model of the segmentation and flattening pipeline\<close>

text \<open>
  The development embeds the parts of the JavaScript sources that the pipeline properties
  are about: the red-vertex detection of \<open>SeamExtractor\<close>, the flood segmenter with kerf,
  the vertex welder of \<open>MeshScissor\<close>, the topology repair, the mass-spring relaxer, the
  shelf packer and the acceptance checks of the orchestrator \<open>flattenMesh\<close>.

  Conventions. A JavaScript \<open>Map\<close> is an association list in insertion order, a
  \<open>Set\<close> is a duplicate-free list in insertion order (or a HOL set where only membership
  is asked), an edge key string \<open>"a_b"\<close> is the pair \<open>(a, b)\<close>, \<open>null\<close> and
  \<open>undefined\<close> are \<open>None\<close>, and a \<open>TypeError\<close> thrown by a property access on
  \<open>undefined\<close> is the value \<open>Inl TypeError\<close>. The coordinates and colors of the input
  meshes are real numbers, compared as the source compares them. The UV coordinates that the
  shelf packer computes are JavaScript numbers: IEEE 754 doubles, with \<open>NaN\<close>, the two
  infinities and the rounding of every operation.
\<close>

section \<open>The model\<close>

subsection \<open>Meshes\<close>

text \<open>The ways in which a function of the source fails to return: it throws a
  \<open>TypeError\<close>, or a loop of it never ends.\<close>

datatype error = TypeError | NotReturning

record color =
  color_r :: real
  color_g :: real
  color_b :: real

text \<open>A vertex object \<open>{x, y, z}\<close>; the objects built by the segmenter also carry
  \<open>r, g, b\<close>.\<close>

record vertex =
  vx :: real
  vy :: real
  vz :: real
  vcolor :: "color option"

type_synonym face = "nat list"

type_synonym edgeKey = "nat \<times> nat"

record mesh =
  vertices :: "vertex list"
  faces :: "face list"

text \<open>\<open>v1 < v2 ? `${v1}_${v2}` : `${v2}_${v1}`\<close>\<close>

definition edgeKey :: "nat \<Rightarrow> nat \<Rightarrow> edgeKey" where
  "edgeKey v1 v2 = (if v1 < v2 then (v1, v2) else (v2, v1))"

text \<open>The pairs \<open>(face[i], face[(i + 1) % face.length])\<close> for \<open>i = 0 .. face.length - 1\<close>.\<close>

definition faceEdges :: "face \<Rightarrow> (nat \<times> nat) list" where
  "faceEdges f = map (\<lambda>i. (f ! i, f ! ((i + 1) mod length f))) [0..<length f]"

definition faceEdgeKeys :: "face \<Rightarrow> edgeKey list" where
  "faceEdgeKeys f = map (\<lambda>(v1, v2). edgeKey v1 v2) (faceEdges f)"

subsection \<open>SeamExtractor.extractRedVertices\<close>

record redOptions =
  redThreshold :: real
  greenMaxThreshold :: real
  blueMaxThreshold :: real

text \<open>The defaults of the destructured \<open>options\<close> parameter.\<close>

definition defaultRedOptions :: redOptions where
  "defaultRedOptions =
     \<lparr>redThreshold = 8 / 10, greenMaxThreshold = 3 / 10, blueMaxThreshold = 3 / 10\<rparr>"

text \<open>The options that \<open>ClothFlattenerApp.segmentParts\<close> passes.\<close>

definition segmentPartsRedOptions :: redOptions where
  "segmentPartsRedOptions =
     \<lparr>redThreshold = 7 / 10, greenMaxThreshold = 4 / 10, blueMaxThreshold = 4 / 10\<rparr>"

record meshData =
  hasVertexColors :: bool
  vertexColors :: "color list"

definition isRedColor :: "redOptions \<Rightarrow> color \<Rightarrow> bool" where
  "isRedColor opts c \<longleftrightarrow>
     color_r c > redThreshold opts \<and> color_g c < greenMaxThreshold opts \<and>
     color_b c < blueMaxThreshold opts"

text \<open>\<open>this.meshData\<close> may be \<open>null\<close>; the result lists the indices in ascending order.\<close>

definition extractRedVertices :: "redOptions \<Rightarrow> meshData option \<Rightarrow> nat list" where
  "extractRedVertices opts md =
     (case md of
        None \<Rightarrow> []
      | Some m \<Rightarrow>
          if \<not> hasVertexColors m then []
          else filter (\<lambda>i. isRedColor opts (vertexColors m ! i)) [0..<length (vertexColors m)])"

subsection \<open>The orchestrator's acceptance of UV candidates (flattenMesh)\<close>

text \<open>A JavaScript number that may be non-finite, for the coordinates that the unfolders
  and the relaxer hand to the orchestrator.\<close>

datatype jsnum = Num real | NaN | PosInfinity | NegInfinity

fun isFiniteNum :: "jsnum \<Rightarrow> bool" where
  "isFiniteNum (Num _) = True"
| "isFiniteNum _ = False"

record 'n uv =
  uv_u :: 'n
  uv_v :: 'n

definition finiteUV :: "jsnum uv \<Rightarrow> bool" where
  "finiteUV p \<longleftrightarrow> isFiniteNum (uv_u p) \<and> isFiniteNum (uv_v p)"

text \<open>What a call inside \<open>try\<close> did: it threw, or it returned an array or
  \<open>null\<close>.\<close>

datatype attempt = Threw | Returned "jsnum uv list option"

text \<open>The test \<open>uvs && uvs.length === subMesh.vertices.length\<close>, the only one the
  orchestrator applies to a candidate.\<close>

definition acceptsUV :: "nat \<Rightarrow> jsnum uv list option \<Rightarrow> bool" where
  "acceptsUV n cand = (case cand of None \<Rightarrow> False | Some uvs \<Rightarrow> length uvs = n)"

text \<open>One \<open>try { r = f(); if (ok r) ... else throw } catch { r = null }\<close> block.\<close>

definition tryCandidate :: "nat \<Rightarrow> attempt \<Rightarrow> jsnum uv list option" where
  "tryCandidate n a =
     (case a of Threw \<Rightarrow> None | Returned r \<Rightarrow> if acceptsUV n r then r else None)"

text \<open>Phase 2 of \<open>flattenMesh\<close>: tube unrolling when the patch was a cylinder or is
  elongated, then LSCM, then the BFS fan, whose failure falls back to
  \<open>physicsFlattener.computePlanarProjection\<close>; a last test replaces an invalid result by
  \<open>projectPlanarUV\<close>.\<close>

definition chooseInitialUV ::
  "nat \<Rightarrow> bool \<Rightarrow> attempt \<Rightarrow> attempt \<Rightarrow> attempt \<Rightarrow> jsnum uv list option
    \<Rightarrow> jsnum uv list option \<Rightarrow> jsnum uv list option" where
  "chooseInitialUV n useTube tube lscm bfs planarProjection projectPlanar =
     (let i1 = (if useTube then tryCandidate n tube else None);
          i2 = (if i1 = None then tryCandidate n lscm else i1);
          i3 = (if i2 = None then
                  (case bfs of
                     Threw \<Rightarrow> planarProjection
                   | Returned r \<Rightarrow> if acceptsUV n r then r else planarProjection)
                else i2)
      in if \<not> acceptsUV n i3 then projectPlanar else i3)"

text \<open>Phase 3 of \<open>flattenMesh\<close>: the relaxed coordinates are kept when the relaxer
  returned an array of the right length; when it threw or returned something else the
  initial coordinates are used; a last test replaces an invalid result by
  \<open>projectPlanarUV\<close>.\<close>

definition chooseFinalUV ::
  "nat \<Rightarrow> jsnum uv list option \<Rightarrow> attempt \<Rightarrow> jsnum uv list option
    \<Rightarrow> jsnum uv list option" where
  "chooseFinalUV n initialUV relaxed projectPlanar =
     (let uvs = (case relaxed of
                   Threw \<Rightarrow> initialUV
                 | Returned r \<Rightarrow> if acceptsUV n r then r else initialUV)
      in if \<not> acceptsUV n uvs then projectPlanar else uvs)"

subsection \<open>JavaScript numbers\<close>

text \<open>A JavaScript number is an IEEE 754 binary64 value: \<open>Num x\<close> for a finite double
  \<open>x\<close>, \<open>NaN\<close>, or an infinity. The sign of zero is not modelled: the operations below
  (addition, subtraction, comparison, \<open>Math.max\<close>) give the same number for both zeros.

  \<open>ilog2 x\<close> is the binary exponent \<open>\<lfloor>log\<^sub>2 \<bar>x\<bar>\<rfloor>\<close> of a non-zero real.\<close>

definition ilog2 :: "real \<Rightarrow> int" where
  "ilog2 x = (if 1 \<le> \<bar>x\<bar> then bitlen \<lfloor>\<bar>x\<bar>\<rfloor> - 1 else - bitlen (\<lceil>1 / \<bar>x\<bar>\<rceil> - 1))"

text \<open>\<open>pow2 e\<close> is \<open>2\<^sup>e\<close> for an integer \<open>e\<close>.\<close>

definition pow2 :: "int \<Rightarrow> real" where
  "pow2 e = (if 0 \<le> e then 2 ^ nat e else 1 / 2 ^ nat (- e))"

text \<open>The nearest integer, the even one of the two on a tie.\<close>

definition roundHalfEven :: "real \<Rightarrow> int" where
  "roundHalfEven y =
     (if y - of_int \<lfloor>y\<rfloor> < 1 / 2 then \<lfloor>y\<rfloor>
      else if 1 / 2 < y - of_int \<lfloor>y\<rfloor> then \<lfloor>y\<rfloor> + 1
      else if even \<lfloor>y\<rfloor> then \<lfloor>y\<rfloor> else \<lfloor>y\<rfloor> + 1)"

text \<open>Rounding to nearest, ties to even, in a binary format with \<open>p\<close> bits of precision
  whose smallest unit in the last place is \<open>2\<^bsup>emin\<^esup>\<close> (the subnormal numbers), with
  no bound on the exponent.\<close>

definition roundTo :: "nat \<Rightarrow> int \<Rightarrow> real \<Rightarrow> real" where
  "roundTo p emin x =
     (if x = 0 then 0
      else of_int (roundHalfEven (x / pow2 (max (ilog2 x - int p + 1) emin))) *
           pow2 (max (ilog2 x - int p + 1) emin))"

text \<open>The double nearest to a real number: binary64 has 53 bits of precision, its smallest
  subnormal is \<open>2\<^bsup>-1074\<^esup>\<close>, and a value that rounds to \<open>2\<^bsup>1024\<^esup>\<close> or beyond
  overflows to an infinity.\<close>

definition toDouble :: "real \<Rightarrow> jsnum" where
  "toDouble x =
     (if 2 ^ 1024 \<le> roundTo 53 (- 1074) x then PosInfinity
      else if roundTo 53 (- 1074) x \<le> - (2 ^ 1024) then NegInfinity
      else Num (roundTo 53 (- 1074) x))"

text \<open>Unary minus, \<open>+\<close>, \<open>-\<close>, \<open><\<close> and \<open>Math.max\<close> on JavaScript numbers.\<close>

fun jsNeg :: "jsnum \<Rightarrow> jsnum" where
  "jsNeg (Num a) = Num (- a)"
| "jsNeg NaN = NaN"
| "jsNeg PosInfinity = NegInfinity"
| "jsNeg NegInfinity = PosInfinity"

fun jsAdd :: "jsnum \<Rightarrow> jsnum \<Rightarrow> jsnum" where
  "jsAdd (Num a) (Num b) = toDouble (a + b)"
| "jsAdd NaN y = NaN"
| "jsAdd x NaN = NaN"
| "jsAdd PosInfinity NegInfinity = NaN"
| "jsAdd NegInfinity PosInfinity = NaN"
| "jsAdd PosInfinity y = PosInfinity"
| "jsAdd NegInfinity y = NegInfinity"
| "jsAdd x PosInfinity = PosInfinity"
| "jsAdd x NegInfinity = NegInfinity"

definition jsSub :: "jsnum \<Rightarrow> jsnum \<Rightarrow> jsnum" where
  "jsSub x y = jsAdd x (jsNeg y)"

fun jsLess :: "jsnum \<Rightarrow> jsnum \<Rightarrow> bool" where
  "jsLess (Num a) (Num b) \<longleftrightarrow> a < b"
| "jsLess NaN y \<longleftrightarrow> False"
| "jsLess x NaN \<longleftrightarrow> False"
| "jsLess x NegInfinity \<longleftrightarrow> False"
| "jsLess PosInfinity y \<longleftrightarrow> False"
| "jsLess NegInfinity y \<longleftrightarrow> True"
| "jsLess x PosInfinity \<longleftrightarrow> True"

definition jsMax :: "jsnum \<Rightarrow> jsnum \<Rightarrow> jsnum" where
  "jsMax x y = (if x = NaN \<or> y = NaN then NaN else if jsLess x y then y else x)"

subsection \<open>FloodSegmenter\<close>

text \<open>\<open>Set.prototype.add\<close> on a \<open>Set\<close> kept as the list of its elements in insertion
  order.\<close>

definition setAdd :: "'a \<Rightarrow> 'a list \<Rightarrow> 'a list" where
  "setAdd x xs = (if x \<in> set xs then xs else xs @ [x])"

text \<open>\<open>if (!map.has(k)) map.set(k, []); map.get(k).push(v)\<close> on a \<open>Map\<close> kept as an
  association list in insertion order.\<close>

fun mapPush :: "'k \<Rightarrow> 'v \<Rightarrow> ('k \<times> 'v list) list \<Rightarrow> ('k \<times> 'v list) list" where
  "mapPush k v [] = [(k, [v])]"
| "mapPush k v ((k', vs) # rest) =
     (if k' = k then (k', vs @ [v]) # rest else (k', vs) # mapPush k v rest)"

text \<open>\<open>map.set(key, (map.get(key) || 0) + 1)\<close>\<close>

fun mapIncr :: "'k \<Rightarrow> ('k \<times> nat) list \<Rightarrow> ('k \<times> nat) list" where
  "mapIncr k [] = [(k, 1)]"
| "mapIncr k ((k', c) # rest) = (if k' = k then (k', c + 1) # rest else (k', c) # mapIncr k rest)"

text \<open>\<open>xs[i].push(x)\<close> on an array of arrays.\<close>

definition arrayPush :: "nat \<Rightarrow> 'a \<Rightarrow> 'a list list \<Rightarrow> 'a list list" where
  "arrayPush i x xs = xs[i := xs ! i @ [x]]"

record subMesh = mesh +
  globalToLocal :: "(nat \<times> nat) list"
  localToGlobal :: "nat list"
  originalFaceIndices :: "nat list"
  internalRedVertices :: "nat list option"

record segmentOptions =
  minFaces :: nat
  assignBoundaryFaces :: bool
  redVertices :: "nat set"

text \<open>\<open>MIN_FACES = 500\<close>, \<open>assignBoundaryFaces = true\<close>, \<open>redVertices = null\<close> (an empty
  set).\<close>

definition defaultSegmentOptions :: segmentOptions where
  "defaultSegmentOptions = \<lparr>minFaces = 500, assignBoundaryFaces = True, redVertices = {}\<rparr>"

text \<open>The faces that have a seam edge, in ascending order.\<close>

definition collectBoundaryFaces :: "'a mesh_scheme \<Rightarrow> edgeKey set \<Rightarrow> nat list" where
  "collectBoundaryFaces m seamEdges =
     filter (\<lambda>faceIdx. \<exists>key \<in> set (faceEdgeKeys (faces m ! faceIdx)). key \<in> seamEdges)
       [0..<length (faces m)]"

text \<open>The map from edge keys to the faces that use them (the \<open>faceIdx\<close> of the source's
  \<open>{faceIdx, v1, v2}\<close>, whose other two fields are never read).\<close>

definition edgeToFaces :: "face list \<Rightarrow> (edgeKey \<times> nat list) list" where
  "edgeToFaces fs =
     fold (\<lambda>faceIdx m. fold (\<lambda>key. mapPush key faceIdx) (faceEdgeKeys (fs ! faceIdx)) m)
       [0..<length fs] []"

text \<open>\<open>adjacency[faceIdx]\<close> lists \<open>{neighborIdx, sharedEdge}\<close>; only the edges with exactly
  two incident faces contribute.\<close>

type_synonym adjacency = "(nat \<times> edgeKey) list list"

definition buildFaceAdjacency :: "'a mesh_scheme \<Rightarrow> adjacency" where
  "buildFaceAdjacency m =
     fold (\<lambda>(key, faceInfos) adj.
             case faceInfos of
               [f1, f2] \<Rightarrow> arrayPush f2 (f1, key) (arrayPush f1 (f2, key) adj)
             | _ \<Rightarrow> adj)
       (edgeToFaces (faces m)) (replicate (length (faces m)) [])"

text \<open>The body of \<open>for (const neighbor of adjacency[faceIdx])\<close>. A read of the typed array
  \<open>visited\<close> out of range gives \<open>undefined\<close>, which is \<open>!== 0\<close>.\<close>

definition visitNeighbor ::
  "edgeKey set \<Rightarrow> nat \<times> edgeKey \<Rightarrow> nat list \<times> nat list \<Rightarrow> nat list \<times> nat list" where
  "visitNeighbor seamEdges neighbor s =
     (case s of (visited, queue) \<Rightarrow>
      case neighbor of (neighborIdx, sharedEdge) \<Rightarrow>
        if \<not> (neighborIdx < length visited \<and> visited ! neighborIdx = 0) then (visited, queue)
        else if edgeKey (fst sharedEdge) (snd sharedEdge) \<in> seamEdges then (visited, queue)
        else (visited[neighborIdx := 1], queue @ [neighborIdx]))"

definition unvisitedCount :: "nat list \<Rightarrow> nat" where
  "unvisitedCount visited = length (filter (\<lambda>x. x = 0) visited)"

lemma unvisitedCount_update:
  "i < length visited \<Longrightarrow> visited ! i = 0 \<Longrightarrow>
     Suc (unvisitedCount (visited[i := Suc 0])) = unvisitedCount visited"
proof (induction visited arbitrary: i)
  case Nil
  then show ?case by simp
next
  case (Cons a visited)
  then show ?case by (cases i) (auto simp: unvisitedCount_def)
qed

lemma visitNeighbor_measure:
  "visitNeighbor seamEdges nb (visited, queue) = (visited', queue') \<Longrightarrow>
     unvisitedCount visited' + length queue' = unvisitedCount visited + length queue"
  using unvisitedCount_update [of "fst nb" visited]
  by (auto simp: visitNeighbor_def split: prod.splits if_splits)

lemma fold_visitNeighbor_measure:
  "fold (visitNeighbor seamEdges) nbs (visited, queue) = (visited', queue') \<Longrightarrow>
     unvisitedCount visited' + length queue' = unvisitedCount visited + length queue"
proof (induction nbs arbitrary: visited queue)
  case Nil
  then show ?case by simp
next
  case (Cons nb nbs)
  obtain v q where step: "visitNeighbor seamEdges nb (visited, queue) = (v, q)"
    by (cases "visitNeighbor seamEdges nb (visited, queue)")
  with Cons.prems have "fold (visitNeighbor seamEdges) nbs (v, q) = (visited', queue')"
    by simp
  then have "unvisitedCount visited' + length queue' = unvisitedCount v + length q"
    by (rule Cons.IH)
  with visitNeighbor_measure [OF step] show ?case by simp
qed

text \<open>The \<open>while (queue.length > 0)\<close> loop: \<open>queue.pop()\<close> takes the last element.
  \<open>adjacency[faceIdx]\<close> out of range is \<open>undefined\<close>, and iterating it throws.\<close>

function floodLoop ::
  "adjacency \<Rightarrow> edgeKey set \<Rightarrow> nat list \<Rightarrow> nat list \<Rightarrow> nat list
    \<Rightarrow> error + (nat list \<times> nat list)" where
  "floodLoop adjacency seamEdges visited queue currentIsland =
     (if queue = [] then Inr (visited, currentIsland)
      else if \<not> last queue < length adjacency then Inl TypeError
      else floodLoop adjacency seamEdges
             (fst (fold (visitNeighbor seamEdges) (adjacency ! last queue)
                    (visited, butlast queue)))
             (snd (fold (visitNeighbor seamEdges) (adjacency ! last queue)
                    (visited, butlast queue)))
             (currentIsland @ [last queue]))"
  by pat_completeness auto
termination
proof (relation "measure (\<lambda>(adjacency, seamEdges, visited, queue, currentIsland).
                   unvisitedCount visited + length queue)", goal_cases)
  case 1
  then show ?case by simp
next
  case (2 adjacency seamEdges visited queue currentIsland)
  have "unvisitedCount (fst (fold (visitNeighbor seamEdges) (adjacency ! last queue)
            (visited, butlast queue))) +
        length (snd (fold (visitNeighbor seamEdges) (adjacency ! last queue)
            (visited, butlast queue))) =
        unvisitedCount visited + length (butlast queue)"
    by (rule fold_visitNeighbor_measure) simp
  with 2 show ?case by (cases queue rule: rev_cases) auto
qed

declare floodLoop.simps [simp del]

text \<open>One round of \<open>for (let startFace = 0; startFace < faceCount; startFace++)\<close>.\<close>

definition floodStart ::
  "adjacency \<Rightarrow> edgeKey set \<Rightarrow> nat \<Rightarrow> error + (nat list \<times> nat list list)
    \<Rightarrow> error + (nat list \<times> nat list list)" where
  "floodStart adjacency seamEdges startFace st =
     (case st of
        Inl e \<Rightarrow> Inl e
      | Inr (visited, islands) \<Rightarrow>
          if \<not> (startFace < length visited \<and> visited ! startFace = 0)
          then Inr (visited, islands)
          else (case floodLoop adjacency seamEdges (visited[startFace := 1]) [startFace] [] of
                  Inl e \<Rightarrow> Inl e
                | Inr (visited', currentIsland) \<Rightarrow>
                    Inr (visited',
                      if length currentIsland > 0 then islands @ [currentIsland]
                      else islands)))"

text \<open>\<open>islands.sort((a, b) => b.length - a.length)\<close>: a stable sort, longest first.\<close>

definition sortIslands :: "nat list list \<Rightarrow> nat list list" where
  "sortIslands islands = sort_key (\<lambda>island. - int (length island)) islands"

definition floodFillExcludingBoundary ::
  "'a mesh_scheme \<Rightarrow> adjacency \<Rightarrow> edgeKey set \<Rightarrow> nat list \<Rightarrow> error + nat list list" where
  "floodFillExcludingBoundary m adjacency seamEdges boundaryFaces =
     (let faceCount = length (faces m);
          visited = fold (\<lambda>bf v. v[bf := 2]) boundaryFaces (replicate faceCount 0)
      in case fold (floodStart adjacency seamEdges) [0..<faceCount] (Inr (visited, [])) of
           Inl e \<Rightarrow> Inl e
         | Inr (visited', islands) \<Rightarrow> Inr (sortIslands islands))"

text \<open>The votes of the neighbours of a face that already belong to a patch.\<close>

definition patchVotes :: "(nat \<rightharpoonup> nat) \<Rightarrow> (nat \<times> edgeKey) list \<Rightarrow> (nat \<times> nat) list" where
  "patchVotes faceToPatch neighbors =
     fold (\<lambda>(neighborIdx, sharedEdge) votes.
             case faceToPatch neighborIdx of
               None \<Rightarrow> votes
             | Some patchId \<Rightarrow> mapIncr patchId votes)
       neighbors []"

text \<open>The patch with the most votes, the first one on a tie; \<open>None\<close> is the source's
  \<open>bestPatchId = -1\<close>.\<close>

definition bestPatch :: "(nat \<times> nat) list \<Rightarrow> nat option" where
  "bestPatch votes =
     fst (fold (\<lambda>(pid, n) (bestPatchId, maxVotes).
                  if n > maxVotes then (Some pid, n) else (bestPatchId, maxVotes))
            votes (None, 0))"

text \<open>The scan \<open>for (const faceIdx of remaining)\<close> that fills \<open>toAdd\<close>.\<close>

fun collectToAdd ::
  "adjacency \<Rightarrow> (nat \<rightharpoonup> nat) \<Rightarrow> nat list \<Rightarrow> error + (nat \<times> nat) list" where
  "collectToAdd adjacency faceToPatch [] = Inr []"
| "collectToAdd adjacency faceToPatch (faceIdx # remaining) =
     (if \<not> faceIdx < length adjacency then Inl TypeError
      else case collectToAdd adjacency faceToPatch remaining of
             Inl e \<Rightarrow> Inl e
           | Inr toAdd \<Rightarrow>
               (case bestPatch (patchVotes faceToPatch (adjacency ! faceIdx)) of
                  None \<Rightarrow> Inr toAdd
                | Some bestPatchId \<Rightarrow> Inr ((faceIdx, bestPatchId) # toAdd)))"

record assignState =
  as_islands :: "nat list list"
  as_faceToPatch :: "nat \<rightharpoonup> nat"
  as_remaining :: "nat list"
  as_changed :: bool

text \<open>The loop \<open>for (const item of toAdd)\<close> that executes the assignment.\<close>

definition applyToAdd :: "(nat \<times> nat) list \<Rightarrow> assignState \<Rightarrow> assignState" where
  "applyToAdd toAdd st =
     fold (\<lambda>(faceIdx, bestPatchId) s.
             \<lparr>as_islands = arrayPush bestPatchId faceIdx (as_islands s),
              as_faceToPatch = (as_faceToPatch s)(faceIdx \<mapsto> bestPatchId),
              as_remaining = removeAll faceIdx (as_remaining s),
              as_changed = True\<rparr>)
       toAdd st"

text \<open>\<open>while (changed && remaining.size > 0 && iter < 5)\<close>\<close>

function assignLoop :: "adjacency \<Rightarrow> nat \<Rightarrow> assignState \<Rightarrow> error + assignState" where
  "assignLoop adjacency iter st =
     (if as_changed st \<and> as_remaining st \<noteq> [] \<and> iter < 5 then
        (case collectToAdd adjacency (as_faceToPatch st) (as_remaining st) of
           Inl e \<Rightarrow> Inl e
         | Inr toAdd \<Rightarrow>
             assignLoop adjacency (iter + 1) (applyToAdd toAdd (st\<lparr>as_changed := False\<rparr>)))
      else Inr st)"
  by pat_completeness auto
termination
  by (relation "measure (\<lambda>(adjacency, iter, st). 5 - iter)") auto

declare assignLoop.simps [simp del]

text \<open>\<open>islands.forEach((island, patchId) => ...)\<close> filling \<open>faceToPatch\<close>.\<close>

definition initialFaceToPatch :: "nat list list \<Rightarrow> (nat \<rightharpoonup> nat)" where
  "initialFaceToPatch islands =
     fold (\<lambda>patchId m. fold (\<lambda>faceIdx m'. m'(faceIdx \<mapsto> patchId)) (islands ! patchId) m)
       [0..<length islands] Map.empty"

text \<open>The source mutates \<open>islands\<close> in place; the model returns the new array.\<close>

definition assignBoundaryFacesByAdjacency ::
  "adjacency \<Rightarrow> nat list list \<Rightarrow> nat list \<Rightarrow> error + nat list list" where
  "assignBoundaryFacesByAdjacency adjacency islands boundaryFaces =
     (case assignLoop adjacency 0
             \<lparr>as_islands = islands, as_faceToPatch = initialFaceToPatch islands,
              as_remaining = boundaryFaces, as_changed = True\<rparr> of
        Inl e \<Rightarrow> Inl e
      | Inr st \<Rightarrow> Inr (as_islands st))"

text \<open>The kerf: a face with a red vertex is dropped, the vertices of the remaining faces
  are copied with the color forced to white, and the faces are re-indexed.
  \<open>mesh.faces[faceIdx]\<close> and \<open>mesh.vertices[globalIdx]\<close> out of range are \<open>undefined\<close>, and
  the source then throws when it iterates the face or reads \<open>v.x\<close>.\<close>

definition white :: color where
  "white = \<lparr>color_r = 1, color_g = 1, color_b = 1\<rparr>"

definition hasRedVertex :: "nat set \<Rightarrow> face \<Rightarrow> bool" where
  "hasRedVertex redVerticesSet f \<longleftrightarrow> (\<exists>vIdx \<in> set f. vIdx \<in> redVerticesSet)"

definition buildSubMeshWithKerf ::
  "'a mesh_scheme \<Rightarrow> nat list \<Rightarrow> nat set \<Rightarrow> error + subMesh option" where
  "buildSubMeshWithKerf m faceIndices redVerticesSet =
     (if \<exists>faceIdx \<in> set faceIndices. \<not> faceIdx < length (faces m) then Inl TypeError
      else
        let cleanFaceIndices =
              filter (\<lambda>faceIdx. \<not> hasRedVertex redVerticesSet (faces m ! faceIdx)) faceIndices
        in if cleanFaceIndices = [] then Inr None
           else
             let usedVertices =
                   fold setAdd (concat (map (\<lambda>faceIdx. faces m ! faceIdx) cleanFaceIndices)) []
             in if \<exists>globalIdx \<in> set usedVertices. \<not> globalIdx < length (vertices m)
                then Inl TypeError
                else
                  let g2l = zip usedVertices [0..<length usedVertices]
                  in Inr (Some
                       \<lparr>vertices =
                          map (\<lambda>globalIdx.
                                 \<lparr>vx = vx (vertices m ! globalIdx),
                                  vy = vy (vertices m ! globalIdx),
                                  vz = vz (vertices m ! globalIdx),
                                  vcolor = Some white\<rparr>) usedVertices,
                        faces =
                          map (\<lambda>faceIdx. map (\<lambda>v. the (map_of g2l v)) (faces m ! faceIdx))
                            cleanFaceIndices,
                        globalToLocal = g2l,
                        localToGlobal = usedVertices,
                        originalFaceIndices = cleanFaceIndices,
                        internalRedVertices = None\<rparr>))"

text \<open>The red vertices of a patch, recorded before the kerf removes their faces.\<close>

definition collectInternalRed :: "'a mesh_scheme \<Rightarrow> nat set \<Rightarrow> nat list \<Rightarrow> nat list" where
  "collectInternalRed m redSet faceIndices =
     fold (\<lambda>vIdx acc. if vIdx \<in> redSet then setAdd vIdx acc else acc)
       (concat (map (\<lambda>fIdx. faces m ! fIdx) faceIndices)) []"

text \<open>Step 6 of \<open>segmentWithSeams\<close>: one sub-mesh per island that still has \<open>minFaces\<close>
  faces after the kerf.\<close>

fun buildSubMeshes ::
  "'a mesh_scheme \<Rightarrow> nat \<Rightarrow> nat set \<Rightarrow> nat list list \<Rightarrow> error + subMesh list" where
  "buildSubMeshes m minF redSet [] = Inr []"
| "buildSubMeshes m minF redSet (faceIndices # validIslands) =
     (if \<exists>fIdx \<in> set faceIndices. \<not> fIdx < length (faces m) then Inl TypeError
      else case buildSubMeshWithKerf m faceIndices redSet of
             Inl e \<Rightarrow> Inl e
           | Inr r \<Rightarrow>
               (case buildSubMeshes m minF redSet validIslands of
                  Inl e \<Rightarrow> Inl e
                | Inr subMeshes \<Rightarrow>
                    (case r of
                       None \<Rightarrow> Inr subMeshes
                     | Some sm \<Rightarrow>
                         if length (faces sm) \<ge> minF
                         then Inr (sm\<lparr>internalRedVertices :=
                                      Some (collectInternalRed m redSet faceIndices)\<rparr>
                                   # subMeshes)
                         else Inr subMeshes)))"

definition segmentWithSeams ::
  "'a mesh_scheme \<Rightarrow> edgeKey set \<Rightarrow> segmentOptions \<Rightarrow> error + subMesh list" where
  "segmentWithSeams m seamEdges options =
     (let boundaryFaces = collectBoundaryFaces m seamEdges;
          adjacency = buildFaceAdjacency m
      in case floodFillExcludingBoundary m adjacency seamEdges boundaryFaces of
           Inl e \<Rightarrow> Inl e
         | Inr islands \<Rightarrow>
             (case (if assignBoundaryFaces options \<and> length islands > 0
                    then assignBoundaryFacesByAdjacency adjacency islands boundaryFaces
                    else Inr islands) of
                Inl e \<Rightarrow> Inl e
              | Inr islands' \<Rightarrow>
                  buildSubMeshes m (minFaces options) (redVertices options)
                    (filter (\<lambda>island. length island \<ge> minFaces options) islands')))"

text \<open>A small run of the segmenter: two triangles that share an edge and a third, separate
  triangle; vertex 3 is red and there is no seam edge.\<close>

definition plainVertex :: "real \<Rightarrow> real \<Rightarrow> real \<Rightarrow> vertex" where
  "plainVertex a b c = \<lparr>vx = a, vy = b, vz = c, vcolor = None\<rparr>"

definition kerfExampleMesh :: mesh where
  "kerfExampleMesh =
     \<lparr>vertices = [plainVertex 0 0 0, plainVertex 1 0 0, plainVertex 0 1 0, plainVertex 1 1 0,
                  plainVertex 5 0 0, plainVertex 6 0 0, plainVertex 5 1 0],
      faces = [[0, 1, 2], [1, 3, 2], [4, 5, 6]]\<rparr>"

definition kerfExampleOptions :: segmentOptions where
  "kerfExampleOptions = \<lparr>minFaces = 1, assignBoundaryFaces = True, redVertices = {3}\<rparr>"

definition whiteVertex :: "real \<Rightarrow> real \<Rightarrow> real \<Rightarrow> vertex" where
  "whiteVertex a b c =
     \<lparr>vx = a, vy = b, vz = c, vcolor = Some \<lparr>color_r = 1, color_g = 1, color_b = 1\<rparr>\<rparr>"

definition kerfExamplePatches :: "subMesh list" where
  "kerfExamplePatches =
     [\<lparr>vertices = [whiteVertex 0 0 0, whiteVertex 1 0 0, whiteVertex 0 1 0],
       faces = [[0, 1, 2]], globalToLocal = [(0, 0), (1, 1), (2, 2)],
       localToGlobal = [0, 1, 2], originalFaceIndices = [0],
       internalRedVertices = Some [3]\<rparr>,
      \<lparr>vertices = [whiteVertex 5 0 0, whiteVertex 6 0 0, whiteVertex 5 1 0],
       faces = [[0, 1, 2]], globalToLocal = [(4, 0), (5, 1), (6, 2)],
       localToGlobal = [4, 5, 6], originalFaceIndices = [2],
       internalRedVertices = Some []\<rparr>]"

subsection \<open>MeshScissor.mergeVertices\<close>

text \<open>A face of the welder's meshes: after the re-indexing an entry is a vertex index or
  \<open>undefined\<close> (the result of \<open>vertexMap.get\<close> on an index that is no vertex).\<close>

record weldMesh =
  wm_vertices :: "vertex list"
  wm_faces :: "nat option list list"

record weldResult = weldMesh +
  vertexMap :: "(nat \<times> nat) list"
  mergedCount :: int

text \<open>\<open>Math.floor(x / cellSize)\<close> printed into the key string. With \<open>cellSize = 0\<close> the
  quotient is \<open>Infinity\<close>, \<open>-Infinity\<close> or \<open>NaN\<close>, and adding \<open>dx\<close> does not change
  it.\<close>

datatype cellCoord = CellInt int | CellPosInf | CellNegInf | CellNaN

type_synonym cell = "cellCoord \<times> cellCoord \<times> cellCoord"

definition cellOf :: "real \<Rightarrow> real \<Rightarrow> cellCoord" where
  "cellOf cellSize x =
     (if cellSize = 0 then (if x > 0 then CellPosInf else if x < 0 then CellNegInf else CellNaN)
      else CellInt \<lfloor>x / cellSize\<rfloor>)"

fun shiftCell :: "int \<Rightarrow> cellCoord \<Rightarrow> cellCoord" where
  "shiftCell d (CellInt k) = CellInt (k + d)"
| "shiftCell d c = c"

definition getHashKey :: "real \<Rightarrow> vertex \<Rightarrow> cell" where
  "getHashKey cellSize v = (cellOf cellSize (vx v), cellOf cellSize (vy v), cellOf cellSize (vz v))"

text \<open>The 27 keys of the neighbouring cells, in the order of the three nested loops.\<close>

definition checkKeys :: "real \<Rightarrow> vertex \<Rightarrow> cell list" where
  "checkKeys cellSize v =
     concat (map (\<lambda>dx. concat (map (\<lambda>dy. map (\<lambda>dz.
         (shiftCell dx (cellOf cellSize (vx v)), shiftCell dy (cellOf cellSize (vy v)),
          shiftCell dz (cellOf cellSize (vz v))))
       [-1, 0, 1]) [-1, 0, 1])) [-1, 0, 1])"

text \<open>\<open>dist <= tolerance\<close>\<close>

definition withinTolerance :: "real \<Rightarrow> vertex \<Rightarrow> vertex \<Rightarrow> bool" where
  "withinTolerance tolerance v existing \<longleftrightarrow>
     sqrt ((vx v - vx existing)\<^sup>2 + (vy v - vy existing)\<^sup>2 + (vz v - vz existing)\<^sup>2)
       \<le> tolerance"

record weldState =
  ws_newVertices :: "vertex list"
  ws_vertexMap :: "(nat \<times> nat) list"
  ws_spatialHash :: "(cell \<times> nat list) list"

text \<open>The two nested search loops with their \<open>break\<close>s: the first already welded vertex
  within the tolerance, going through the keys in order and through each cell's list in
  order.\<close>

definition findExisting ::
  "(vertex \<Rightarrow> vertex \<Rightarrow> bool) \<Rightarrow> vertex \<Rightarrow> vertex list \<Rightarrow> (cell \<times> nat list) list \<Rightarrow> cell list
    \<Rightarrow> nat option" where
  "findExisting near v newVertices spatialHash keys =
     find (\<lambda>existingIdx. near v (newVertices ! existingIdx))
       (concat (map (\<lambda>key. case map_of spatialHash key of None \<Rightarrow> [] | Some idxs \<Rightarrow> idxs) keys))"

text \<open>One round of \<open>for (let i = 0; i < n; i++)\<close>, for any key function, neighbourhood and
  distance test.\<close>

definition weldStep ::
  "(vertex \<Rightarrow> cell) \<Rightarrow> (vertex \<Rightarrow> cell list) \<Rightarrow> (vertex \<Rightarrow> vertex \<Rightarrow> bool) \<Rightarrow> nat \<times> vertex
    \<Rightarrow> weldState \<Rightarrow> weldState" where
  "weldStep hashKey keysOf near iv st =
     (case findExisting near (snd iv) (ws_newVertices st) (ws_spatialHash st) (keysOf (snd iv)) of
        Some existingIdx \<Rightarrow> st\<lparr>ws_vertexMap := ws_vertexMap st @ [(fst iv, existingIdx)]\<rparr>
      | None \<Rightarrow>
          \<lparr>ws_newVertices = ws_newVertices st @ [snd iv],
           ws_vertexMap = ws_vertexMap st @ [(fst iv, length (ws_newVertices st))],
           ws_spatialHash = mapPush (hashKey (snd iv)) (length (ws_newVertices st))
                              (ws_spatialHash st)\<rparr>)"

definition weldAll ::
  "(vertex \<Rightarrow> cell) \<Rightarrow> (vertex \<Rightarrow> cell list) \<Rightarrow> (vertex \<Rightarrow> vertex \<Rightarrow> bool) \<Rightarrow> vertex list
    \<Rightarrow> weldState" where
  "weldAll hashKey keysOf near vs =
     fold (weldStep hashKey keysOf near) (zip [0..<length vs] vs)
       \<lparr>ws_newVertices = [], ws_vertexMap = [], ws_spatialHash = []\<rparr>"

text \<open>\<open>face.map(v => vertexMap.get(v))\<close>\<close>

definition remapFace :: "(nat \<times> nat) list \<Rightarrow> nat option list \<Rightarrow> nat option list" where
  "remapFace vmap face = map (\<lambda>v. case v of None \<Rightarrow> None | Some i \<Rightarrow> map_of vmap i) face"

text \<open>\<open>new Set(face).size >= 3\<close>\<close>

definition validFace :: "nat option list \<Rightarrow> bool" where
  "validFace face \<longleftrightarrow> length (remdups face) \<ge> 3"

definition mergeWith ::
  "(vertex \<Rightarrow> cell) \<Rightarrow> (vertex \<Rightarrow> cell list) \<Rightarrow> (vertex \<Rightarrow> vertex \<Rightarrow> bool)
    \<Rightarrow> 'a weldMesh_scheme \<Rightarrow> weldResult" where
  "mergeWith hashKey keysOf near m =
     (let st = weldAll hashKey keysOf near (wm_vertices m)
      in \<lparr>wm_vertices = ws_newVertices st,
          wm_faces = filter validFace (map (remapFace (ws_vertexMap st)) (wm_faces m)),
          vertexMap = ws_vertexMap st,
          mergedCount = int (length (wm_vertices m)) - int (length (ws_newVertices st))\<rparr>)"

definition mergeVertices :: "'a weldMesh_scheme \<Rightarrow> real \<Rightarrow> weldResult" where
  "mergeVertices m tolerance =
     mergeWith (getHashKey (tolerance * 10)) (checkKeys (tolerance * 10))
       (withinTolerance tolerance) m"

text \<open>The default \<open>tolerance = 1e-6\<close>.\<close>

definition defaultTolerance :: real where
  "defaultTolerance = 1 / 1000000"

text \<open>An invariant of the welding loop: every index stored in the spatial hash or in the
  vertex map is the index of a welded vertex.\<close>

definition hashBounded :: "weldState \<Rightarrow> bool" where
  "hashBounded st \<longleftrightarrow>
     (\<forall>(key, idxs) \<in> set (ws_spatialHash st). \<forall>i \<in> set idxs. i < length (ws_newVertices st)) \<and>
     (\<forall>(i, j) \<in> set (ws_vertexMap st). j < length (ws_newVertices st))"

subsection \<open>ClothFlattenerApp.createPatternFromSubMesh and arrangePatterns\<close>

record bounds =
  minU :: jsnum
  maxU :: jsnum
  minV :: jsnum
  maxV :: jsnum

text \<open>The fields of a pattern that the packer reads and writes.\<close>

record pattern =
  pat_uv :: "jsnum uv list"
  pat_bounds :: bounds

text \<open>The body of \<open>for (const uv of uvs)\<close> in \<open>createPatternFromSubMesh\<close>: four
  independent comparisons, each false when an operand is \<open>NaN\<close>.\<close>

definition growBounds :: "jsnum uv \<Rightarrow> bounds \<Rightarrow> bounds" where
  "growBounds q b =
     \<lparr>minU = (if jsLess (uv_u q) (minU b) then uv_u q else minU b),
      maxU = (if jsLess (maxU b) (uv_u q) then uv_u q else maxU b),
      minV = (if jsLess (uv_v q) (minV b) then uv_v q else minV b),
      maxV = (if jsLess (maxV b) (uv_v q) then uv_v q else maxV b)\<rparr>"

text \<open>The bounds start at \<open>Infinity\<close> and \<open>-Infinity\<close>. The other fields of the pattern
  (indices, faces, the 3D vertices) are not read by the packer.\<close>

definition createPatternFromSubMesh :: "jsnum uv list \<Rightarrow> pattern" where
  "createPatternFromSubMesh uvs =
     \<lparr>pat_uv = uvs,
      pat_bounds = fold growBounds uvs
        \<lparr>minU = PosInfinity, maxU = NegInfinity, minV = PosInfinity, maxV = NegInfinity\<rparr>\<rparr>"

record packState =
  currentX :: jsnum
  currentY :: jsnum
  rowHeight :: jsnum

text \<open>\<open>padding = 0.02\<close> is the double nearest to \<open>2/100\<close>; \<open>maxWidth = 4.0\<close>.\<close>

definition padding :: jsnum where
  "padding = toDouble (2 / 100)"

definition maxWidth :: jsnum where
  "maxWidth = Num 4"

text \<open>\<open>if (currentX + width > maxWidth && currentX > 0)\<close>: start a new row, with
  \<open>currentY += rowHeight + padding\<close>.\<close>

definition wrapRow :: "jsnum \<Rightarrow> packState \<Rightarrow> packState" where
  "wrapRow width st =
     (if jsLess maxWidth (jsAdd (currentX st) width) \<and> jsLess (Num 0) (currentX st)
      then \<lparr>currentX = Num 0,
            currentY = jsAdd (currentY st) (jsAdd (rowHeight st) padding),
            rowHeight = Num 0\<rparr>
      else st)"

text \<open>The translation of the UVs and of the bounds of one pattern
  (\<open>uv.u += offsetU\<close>, \<open>pattern.bounds.minU += offsetU\<close> and so on).\<close>

definition translatePattern :: "jsnum \<Rightarrow> jsnum \<Rightarrow> pattern \<Rightarrow> pattern" where
  "translatePattern offsetU offsetV p =
     \<lparr>pat_uv = map (\<lambda>q. \<lparr>uv_u = jsAdd (uv_u q) offsetU, uv_v = jsAdd (uv_v q) offsetV\<rparr>)
                (pat_uv p),
      pat_bounds =
        \<lparr>minU = jsAdd (minU (pat_bounds p)) offsetU, maxU = jsAdd (maxU (pat_bounds p)) offsetU,
         minV = jsAdd (minV (pat_bounds p)) offsetV, maxV = jsAdd (maxV (pat_bounds p)) offsetV\<rparr>\<rparr>"

text \<open>The body of \<open>for (const pattern of patterns)\<close>: the moved pattern and the next
  cursor, with \<open>currentX += width + padding\<close> and
  \<open>rowHeight = Math.max(rowHeight, height)\<close>.\<close>

definition arrangeStep :: "pattern \<Rightarrow> packState \<Rightarrow> pattern \<times> packState" where
  "arrangeStep p st =
     (let width = jsSub (maxU (pat_bounds p)) (minU (pat_bounds p));
          height = jsSub (maxV (pat_bounds p)) (minV (pat_bounds p));
          st1 = wrapRow width st;
          offsetU = jsSub (currentX st1) (minU (pat_bounds p));
          offsetV = jsSub (currentY st1) (minV (pat_bounds p))
      in (translatePattern offsetU offsetV p,
          \<lparr>currentX = jsAdd (currentX st1) (jsAdd width padding),
           currentY = currentY st1,
           rowHeight = jsMax (rowHeight st1) height\<rparr>))"

text \<open>The source moves the patterns in place; the model returns the moved patterns.\<close>

fun arrangeLoop :: "pattern list \<Rightarrow> packState \<Rightarrow> pattern list" where
  "arrangeLoop [] st = []"
| "arrangeLoop (p # patterns) st =
     fst (arrangeStep p st) # arrangeLoop patterns (snd (arrangeStep p st))"

definition arrangePatterns :: "pattern list \<Rightarrow> pattern list" where
  "arrangePatterns patterns =
     (if patterns = [] then []
      else arrangeLoop patterns \<lparr>currentX = Num 0, currentY = Num 0, rowHeight = Num 0\<rparr>)"

text \<open>The axis-aligned bounding box of a list of UVs: the least and the greatest
  coordinate on each axis.\<close>

fun jsMinimum :: "jsnum list \<Rightarrow> jsnum" where
  "jsMinimum [] = PosInfinity"
| "jsMinimum (x # xs) = (if jsLess (jsMinimum xs) x then jsMinimum xs else x)"

fun jsMaximum :: "jsnum list \<Rightarrow> jsnum" where
  "jsMaximum [] = NegInfinity"
| "jsMaximum (x # xs) = (if jsLess x (jsMaximum xs) then jsMaximum xs else x)"

definition boundingBox :: "jsnum uv list \<Rightarrow> bounds" where
  "boundingBox uvs =
     \<lparr>minU = jsMinimum (map uv_u uvs), maxU = jsMaximum (map uv_u uvs),
      minV = jsMinimum (map uv_v uvs), maxV = jsMaximum (map uv_v uvs)\<rparr>"

text \<open>Two closed axis-aligned boxes have no point in common.\<close>

definition boxesDisjoint :: "bounds \<Rightarrow> bounds \<Rightarrow> bool" where
  "boxesDisjoint a b \<longleftrightarrow>
     jsLess (maxU a) (minU b) \<or> jsLess (maxU b) (minU a) \<or>
     jsLess (maxV a) (minV b) \<or> jsLess (maxV b) (minV a)"



text \<open>A patch whose UVs are all \<open>NaN\<close>, as \<open>flattenMesh\<close> accepts them, followed by two
  unit patches.\<close>

definition nanExample :: "jsnum uv list list" where
  "nanExample =
     [[\<lparr>uv_u = NaN, uv_v = NaN\<rparr>],
      [\<lparr>uv_u = Num 0, uv_v = Num 0\<rparr>, \<lparr>uv_u = Num 1, uv_v = Num 1\<rparr>],
      [\<lparr>uv_u = Num 0, uv_v = Num 0\<rparr>, \<lparr>uv_u = Num 1, uv_v = Num 1\<rparr>]]"

text \<open>A patch of height \<open>2\<^sup>48\<close> that is wider than a row, followed by a unit patch.\<close>

definition tallExample :: "jsnum uv list list" where
  "tallExample =
     [[\<lparr>uv_u = Num 0, uv_v = Num 0\<rparr>, \<lparr>uv_u = Num 5, uv_v = Num (2 ^ 48)\<rparr>],
      [\<lparr>uv_u = Num 0, uv_v = Num 0\<rparr>, \<lparr>uv_u = Num 1, uv_v = Num 1\<rparr>]]"








subsection \<open>TopologyRepair\<close>

text \<open>\<open>if (!adj.has(v)) adj.set(v, [])\<close>\<close>

definition mapEnsure :: "'k \<Rightarrow> ('k \<times> 'v list) list \<Rightarrow> ('k \<times> 'v list) list" where
  "mapEnsure k m = (if k \<in> fst ` set m then m else m @ [(k, [])])"

text \<open>\<open>adj.get(v) || []\<close>\<close>

definition neighborsOf :: "(nat \<times> nat list) list \<Rightarrow> nat \<Rightarrow> nat list" where
  "neighborsOf adj v = (case map_of adj v of None \<Rightarrow> [] | Some ns \<Rightarrow> ns)"

text \<open>The result of \<open>computeEuler\<close>; a boundary edge \<open>{v1, v2, key}\<close> is the pair
  \<open>(v1, v2)\<close> of its key.\<close>

record topology =
  euler :: int
  topo_V :: nat
  topo_E :: nat
  topo_F :: nat
  boundaryEdges :: "(nat \<times> nat) list"
  boundaryLoopCount :: nat

definition edgeCount :: "face list \<Rightarrow> (edgeKey \<times> nat) list" where
  "edgeCount fs = fold (\<lambda>face m. fold mapIncr (faceEdgeKeys face) m) fs []"

text \<open>The vertex adjacency of the boundary edges.\<close>

definition boundaryAdj :: "(nat \<times> nat) list \<Rightarrow> (nat \<times> nat list) list" where
  "boundaryAdj es =
     fold (\<lambda>(v1, v2) adj. mapPush v2 v1 (mapPush v1 v2 (mapEnsure v2 (mapEnsure v1 adj)))) es []"

text \<open>The body of \<open>for (const next of adj.get(curr) || [])\<close> of the breadth-first
  searches.\<close>

definition bfsVisit :: "nat \<Rightarrow> nat list \<times> nat list \<Rightarrow> nat list \<times> nat list" where
  "bfsVisit next s =
     (case s of (visited, queue) \<Rightarrow>
        if next \<in> set visited then (visited, queue) else (visited @ [next], queue @ [next]))"

definition adjVertices :: "(nat \<times> nat list) list \<Rightarrow> nat set" where
  "adjVertices adj = (\<Union>(k, ns) \<in> set adj. set ns)"

lemma finite_adjVertices: "finite (adjVertices adj)"
  by (auto simp: adjVertices_def)

lemma neighborsOf_subset: "set (neighborsOf adj v) \<subseteq> adjVertices adj"
proof (cases "map_of adj v")
  case None
  then show ?thesis by (simp add: neighborsOf_def)
next
  case (Some ns)
  then have "(v, ns) \<in> set adj" by (rule map_of_SomeD)
  then have "set ns \<subseteq> adjVertices adj" unfolding adjVertices_def by blast
  with Some show ?thesis by (simp add: neighborsOf_def)
qed

lemma fold_bfsVisit_measure:
  assumes "finite U" and "set nexts \<subseteq> U"
  shows "card (U - set (fst (fold bfsVisit nexts (visited, queue)))) +
           length (snd (fold bfsVisit nexts (visited, queue))) =
         card (U - set visited) + length queue"
  using assms(2)
proof (induction nexts arbitrary: visited queue)
  case Nil
  then show ?case by simp
next
  case (Cons n nexts)
  show ?case
  proof (cases "n \<in> set visited")
    case True
    with Cons show ?thesis by (simp add: bfsVisit_def)
  next
    case False
    from Cons.prems have nU: "n \<in> U" and rest: "set nexts \<subseteq> U" by simp_all
    have eq: "U - set (visited @ [n]) = (U - set visited) - {n}" by auto
    from nU False have "n \<in> U - set visited" by simp
    moreover from assms(1) have "finite (U - set visited)" by simp
    ultimately have "Suc (card ((U - set visited) - {n})) = card (U - set visited)"
      by (rule card_Suc_Diff1 [rotated])
    then have "Suc (card (U - set (visited @ [n]))) = card (U - set visited)"
      unfolding eq .
    with Cons.IH [OF rest, of "visited @ [n]" "queue @ [n]"] False show ?thesis
      by (simp add: bfsVisit_def)
  qed
qed

text \<open>The loop \<open>while (queue.length > 0) { const v = queue.shift(); loop.push(v); ... }\<close>
  of \<open>countBoundaryLoops\<close>, \<open>separateBoundaryLoops\<close> and \<open>cutMeshAlongPath\<close>.\<close>

function bfsLoop ::
  "(nat \<times> nat list) list \<Rightarrow> nat list \<Rightarrow> nat list \<Rightarrow> nat list \<Rightarrow> nat list \<times> nat list" where
  "bfsLoop adj visited queue loop =
     (if queue = [] then (visited, loop)
      else bfsLoop adj
             (fst (fold bfsVisit (neighborsOf adj (hd queue)) (visited, tl queue)))
             (snd (fold bfsVisit (neighborsOf adj (hd queue)) (visited, tl queue)))
             (loop @ [hd queue]))"
  by pat_completeness auto
termination
proof (relation "measure (\<lambda>(adj, visited, queue, loop).
                   card (adjVertices adj - set visited) + length queue)", goal_cases)
  case 1
  then show ?case by simp
next
  case (2 adj visited queue loop)
  have "card (adjVertices adj - set (fst (fold bfsVisit (neighborsOf adj (hd queue))
            (visited, tl queue)))) +
        length (snd (fold bfsVisit (neighborsOf adj (hd queue)) (visited, tl queue))) =
        card (adjVertices adj - set visited) + length (tl queue)"
    by (rule fold_bfsVisit_measure [OF finite_adjVertices neighborsOf_subset])
  with 2 show ?case by (cases queue) auto
qed

declare bfsLoop.simps [simp del]

text \<open>One round of \<open>for (const v of adj.keys())\<close>: a breadth-first search from every key
  that is not visited yet.\<close>

definition bfsComponents :: "(nat \<times> nat list) list \<Rightarrow> nat list \<Rightarrow> nat list list" where
  "bfsComponents adj starts =
     snd (fold (\<lambda>startV (visited, loops).
                  if startV \<in> set visited then (visited, loops)
                  else (fst (bfsLoop adj (visited @ [startV]) [startV] []),
                        loops @ [snd (bfsLoop adj (visited @ [startV]) [startV] [])]))
            starts ([], []))"

definition countBoundaryLoops :: "(nat \<times> nat) list \<Rightarrow> nat" where
  "countBoundaryLoops es =
     (if es = [] then 0
      else length (bfsComponents (boundaryAdj es) (map fst (boundaryAdj es))))"

definition computeEuler :: "'a mesh_scheme \<Rightarrow> topology" where
  "computeEuler m =
     (let V = length (vertices m);
          F = length (faces m);
          counts = edgeCount (faces m);
          E = length counts;
          bes = map fst (filter (\<lambda>(key, count). count = 1) counts)
      in \<lparr>euler = int V - int E + int F, topo_V = V, topo_E = E, topo_F = F,
          boundaryEdges = bes, boundaryLoopCount = countBoundaryLoops bes\<rparr>)"

text \<open>\<open>separateBoundaryLoops\<close>: the components in the order of their first vertex, then
  sorted by size with \<open>loops.sort((a, b) => b.length - a.length)\<close>.\<close>

definition separateBoundaryLoops :: "(nat \<times> nat) list \<Rightarrow> nat list list" where
  "separateBoundaryLoops es =
     sortIslands (bfsComponents (boundaryAdj es) (map fst (boundaryAdj es)))"

text \<open>\<open>sampleLoop\<close>: every \<open>step\<close>-th element when the loop is longer than \<open>maxSamples\<close>.
  With \<open>maxSamples = 0\<close> the step is \<open>Infinity\<close> and only the first element is taken.\<close>

definition sampleLoop :: "nat list \<Rightarrow> nat \<Rightarrow> nat list" where
  "sampleLoop loop maxSamples =
     (if length loop \<le> maxSamples then loop
      else if maxSamples = 0 then [loop ! 0]
      else map (\<lambda>i. loop ! i)
             (filter (\<lambda>i. i mod (length loop div maxSamples) = 0) [0..<length loop]))"

definition distance :: "vertex \<Rightarrow> vertex \<Rightarrow> real" where
  "distance v1 v2 = sqrt ((vx v2 - vx v1)\<^sup>2 + (vy v2 - vy v1)\<^sup>2 + (vz v2 - vz v1)\<^sup>2)"

text \<open>\<open>this.distance(mesh.vertices[a], mesh.vertices[b])\<close>: reading \<open>.x\<close> of a missing
  vertex throws.\<close>

definition vertexDistance :: "'a mesh_scheme \<Rightarrow> nat \<Rightarrow> nat \<Rightarrow> error + real" where
  "vertexDistance m a b =
     (if a < length (vertices m) \<and> b < length (vertices m)
      then Inr (distance (vertices m ! a) (vertices m ! b)) else Inl TypeError)"

record bridge =
  startV :: nat
  endV :: nat
  bridgeDistance :: real

text \<open>\<open>findShortestBridge\<close>: the first pair of samples with the least distance; the state
  \<open>None\<close> is \<open>bestBridge = null\<close> with \<open>minDist = Infinity\<close>.\<close>

definition bridgeStep :: "'a mesh_scheme \<Rightarrow> nat \<times> nat \<Rightarrow> error + bridge option \<Rightarrow> error + bridge option" where
  "bridgeStep m pair st =
     (case st of
        Inl e \<Rightarrow> Inl e
      | Inr best \<Rightarrow>
          (case vertexDistance m (fst pair) (snd pair) of
             Inl e \<Rightarrow> Inl e
           | Inr dst \<Rightarrow>
               if (case best of None \<Rightarrow> True | Some b \<Rightarrow> dst < bridgeDistance b)
               then Inr (Some \<lparr>startV = fst pair, endV = snd pair, bridgeDistance = dst\<rparr>)
               else Inr best))"

definition findShortestBridge :: "'a mesh_scheme \<Rightarrow> nat list \<Rightarrow> nat list \<Rightarrow> error + bridge option" where
  "findShortestBridge m loopA loopB =
     fold (bridgeStep m)
       (concat (map (\<lambda>vA. map (\<lambda>vB. (vA, vB)) (sampleLoop loopB 20)) (sampleLoop loopA 20)))
       (Inr None)"

text \<open>\<open>adj.get(v).add(w)\<close> on the map from vertex indices to \<open>Set\<close>s.\<close>

definition arraySetAdd :: "nat \<Rightarrow> 'a \<Rightarrow> 'a list list \<Rightarrow> 'a list list" where
  "arraySetAdd i x xs = xs[i := setAdd x (xs ! i)]"

text \<open>The adjacency table of \<open>findGeodesicPath\<close>; \<open>adj.get(v)\<close> is \<open>undefined\<close> for a face
  vertex that is no vertex of the mesh, and \<open>.add\<close> then throws.\<close>

definition vertexAdjacency :: "'a mesh_scheme \<Rightarrow> error + nat list list" where
  "vertexAdjacency m =
     (if \<exists>f \<in> set (faces m). \<exists>v \<in> set f. \<not> v < length (vertices m) then Inl TypeError
      else Inr (fold (\<lambda>(v1, v2) adj. arraySetAdd v2 v1 (arraySetAdd v1 v2 adj))
                  (concat (map faceEdges (faces m)))
                  (replicate (length (vertices m)) [])))"

text \<open>\<open>while (node !== undefined) { path.unshift(node); node = prev.get(node); }\<close>\<close>

partial_function (option) rebuildPath :: "(nat \<times> nat) list \<Rightarrow> nat \<Rightarrow> nat list \<Rightarrow> nat list option" where
  "rebuildPath prev node path =
     (case map_of prev node of
        None \<Rightarrow> Some (node # path)
      | Some p \<Rightarrow> rebuildPath prev p (node # path))"

declare rebuildPath.simps [code]

definition pathVisit ::
  "nat \<Rightarrow> nat \<Rightarrow> nat list \<times> (nat \<times> nat) list \<times> nat list
    \<Rightarrow> nat list \<times> (nat \<times> nat) list \<times> nat list" where
  "pathVisit cur next s =
     (case s of (visited, prev, queue) \<Rightarrow>
        if next \<in> set visited then (visited, prev, queue)
        else (visited @ [next], prev @ [(next, cur)], queue @ [next]))"

definition tableVertices :: "nat list list \<Rightarrow> nat set" where
  "tableVertices adj = (\<Union>ns \<in> set adj. set ns)"

definition tableNeighbors :: "nat list list \<Rightarrow> nat \<Rightarrow> nat list" where
  "tableNeighbors adj v = (if v < length adj then adj ! v else [])"

lemma fold_pathVisit_measure:
  assumes "finite U" and "set nexts \<subseteq> U"
  shows "card (U - set (fst (fold (pathVisit cur) nexts (visited, prev, queue)))) +
           length (snd (snd (fold (pathVisit cur) nexts (visited, prev, queue)))) =
         card (U - set visited) + length queue"
  using assms(2)
proof (induction nexts arbitrary: visited prev queue)
  case Nil
  then show ?case by simp
next
  case (Cons n nexts)
  show ?case
  proof (cases "n \<in> set visited")
    case True
    with Cons show ?thesis by (simp add: pathVisit_def)
  next
    case False
    from Cons.prems have nU: "n \<in> U" and rest: "set nexts \<subseteq> U" by simp_all
    have eq: "U - set (visited @ [n]) = (U - set visited) - {n}" by auto
    from nU False have "n \<in> U - set visited" by simp
    moreover from assms(1) have "finite (U - set visited)" by simp
    ultimately have "Suc (card ((U - set visited) - {n})) = card (U - set visited)"
      by (rule card_Suc_Diff1 [rotated])
    then have "Suc (card (U - set (visited @ [n]))) = card (U - set visited)"
      unfolding eq .
    with Cons.IH [OF rest, of "visited @ [n]" "prev @ [(n, cur)]" "queue @ [n]"] False
    show ?thesis by (simp add: pathVisit_def)
  qed
qed

lemma tableNeighbors_subset: "set (tableNeighbors adj v) \<subseteq> tableVertices adj"
proof (cases "v < length adj")
  case True
  then have "adj ! v \<in> set adj" by simp
  then have "set (adj ! v) \<subseteq> tableVertices adj" unfolding tableVertices_def by blast
  with True show ?thesis by (simp add: tableNeighbors_def)
next
  case False
  then show ?thesis by (simp add: tableNeighbors_def)
qed

text \<open>The breadth-first search of \<open>findGeodesicPath\<close>; \<open>Inr None\<close> when the queue runs
  empty before \<open>end\<close> is taken from it.\<close>

function pathBfs ::
  "nat list list \<Rightarrow> nat \<Rightarrow> nat list \<Rightarrow> (nat \<times> nat) list \<Rightarrow> nat list \<Rightarrow> error + nat list option"
  where
  "pathBfs adj target visited prev queue =
     (if queue = [] then Inr None
      else if hd queue = target then
        (case rebuildPath prev target [] of None \<Rightarrow> Inl NotReturning | Some path \<Rightarrow> Inr (Some path))
      else pathBfs adj target
             (fst (fold (pathVisit (hd queue)) (tableNeighbors adj (hd queue))
                     (visited, prev, tl queue)))
             (fst (snd (fold (pathVisit (hd queue)) (tableNeighbors adj (hd queue))
                     (visited, prev, tl queue))))
             (snd (snd (fold (pathVisit (hd queue)) (tableNeighbors adj (hd queue))
                     (visited, prev, tl queue)))))"
  by pat_completeness auto
termination
proof (relation "measure (\<lambda>(adj, target, visited, prev, queue).
                   card (tableVertices adj - set visited) + length queue)", goal_cases)
  case 1
  then show ?case by simp
next
  case (2 adj target visited prev queue)
  have fin: "finite (tableVertices adj)" by (simp add: tableVertices_def)
  have "card (tableVertices adj - set (fst (fold (pathVisit (hd queue))
            (tableNeighbors adj (hd queue)) (visited, prev, tl queue)))) +
        length (snd (snd (fold (pathVisit (hd queue)) (tableNeighbors adj (hd queue))
            (visited, prev, tl queue)))) =
        card (tableVertices adj - set visited) + length (tl queue)"
    by (rule fold_pathVisit_measure [OF fin tableNeighbors_subset])
  with 2 show ?case by (cases queue) (auto simp: case_prod_unfold)
qed

declare pathBfs.simps [simp del]

definition findGeodesicPath :: "'a mesh_scheme \<Rightarrow> nat \<Rightarrow> nat \<Rightarrow> error + nat list" where
  "findGeodesicPath m start target =
     (case vertexAdjacency m of
        Inl e \<Rightarrow> Inl e
      | Inr adj \<Rightarrow>
          (case pathBfs adj target [start] [] [start] of
             Inl e \<Rightarrow> Inl e
           | Inr None \<Rightarrow> Inr [start, target]
           | Inr (Some path) \<Rightarrow> Inr path))"

text \<open>\<open>findNearestInSet\<close>: the first vertex of the loop with the least distance; \<open>None\<close>
  is \<open>null\<close>.\<close>

definition nearestStep ::
  "'a mesh_scheme \<Rightarrow> nat \<Rightarrow> nat \<Rightarrow> error + (nat \<times> real) option \<Rightarrow> error + (nat \<times> real) option" where
  "nearestStep m vertex v st =
     (case st of
        Inl e \<Rightarrow> Inl e
      | Inr best \<Rightarrow>
          (case vertexDistance m vertex v of
             Inl e \<Rightarrow> Inl e
           | Inr dst \<Rightarrow>
               if (case best of None \<Rightarrow> True | Some b \<Rightarrow> dst < snd b)
               then Inr (Some (v, dst)) else Inr best))"

definition findNearestInSet :: "'a mesh_scheme \<Rightarrow> nat \<Rightarrow> nat list \<Rightarrow> error + nat option" where
  "findNearestInSet m vertex targetSet =
     (case fold (nearestStep m vertex) targetSet (Inr None) of
        Inl e \<Rightarrow> Inl e
      | Inr best \<Rightarrow> Inr (map_option fst best))"

definition snapPathToBoundary ::
  "'a mesh_scheme \<Rightarrow> nat list \<Rightarrow> nat list \<Rightarrow> nat list \<Rightarrow> error + nat list" where
  "snapPathToBoundary m path loopA loopB =
     (if length path < 2 then Inr path
      else
        case (if hd path \<notin> set loopA then
                (case findNearestInSet m (hd path) loopA of
                   Inl e \<Rightarrow> Inl e
                 | Inr None \<Rightarrow> Inr path
                 | Inr (Some nearest) \<Rightarrow> Inr (nearest # path))
              else Inr path) of
          Inl e \<Rightarrow> Inl e
        | Inr newPath \<Rightarrow>
            if last newPath \<notin> set loopB then
              (case findNearestInSet m (last newPath) loopB of
                 Inl e \<Rightarrow> Inl e
               | Inr None \<Rightarrow> Inr newPath
               | Inr (Some nearest) \<Rightarrow> Inr (newPath @ [nearest]))
            else Inr newPath)"

text \<open>\<open>createSubMesh\<close>. The spread \<open>{ ...mesh.vertices[oldIdx] }\<close> of a missing vertex is
  the empty object; the model takes that object as the parameter \<open>emptyObject\<close>.\<close>

definition createSubMesh :: "vertex \<Rightarrow> 'a mesh_scheme \<Rightarrow> nat list \<Rightarrow> subMesh" where
  "createSubMesh emptyObject m faceIndices =
     (let usedVertices = fold setAdd (concat (map (\<lambda>faceIdx. faces m ! faceIdx) faceIndices)) [];
          vmap = zip usedVertices [0..<length usedVertices]
      in \<lparr>vertices = map (\<lambda>oldIdx. if oldIdx < length (vertices m) then vertices m ! oldIdx
                                      else emptyObject) usedVertices,
          faces = map (\<lambda>faceIdx. map (\<lambda>v. the (map_of vmap v)) (faces m ! faceIdx)) faceIndices,
          globalToLocal = vmap,
          localToGlobal = usedVertices,
          originalFaceIndices = faceIndices,
          internalRedVertices = None\<rparr>)"

text \<open>The keys of the edges between consecutive path vertices.\<close>

definition pathEdgeKeys :: "nat list \<Rightarrow> edgeKey set" where
  "pathEdgeKeys path = set (map (\<lambda>i. edgeKey (path ! i) (path ! (i + 1))) [0..<length path - 1])"

text \<open>Face adjacency across the edges that are not on the path and have exactly two
  faces.\<close>

definition cutFaceAdj :: "face list \<Rightarrow> edgeKey set \<Rightarrow> nat list list" where
  "cutFaceAdj fs pathEdges =
     fold (\<lambda>(key, fis) adj.
             if key \<notin> pathEdges \<and> length fis = 2
             then arraySetAdd (fis ! 1) (fis ! 0) (arraySetAdd (fis ! 0) (fis ! 1) adj)
             else adj)
       (edgeToFaces fs) (replicate (length fs) [])"

text \<open>\<open>cutMeshAlongPath\<close>: the groups of faces that stay connected when the path edges are
  not crossed; one group or none counts as a failed cut (\<open>[]\<close>).\<close>

definition cutMeshAlongPath :: "vertex \<Rightarrow> subMesh \<Rightarrow> nat list \<Rightarrow> subMesh list" where
  "cutMeshAlongPath emptyObject m path =
     (if length path < 2 then [m]
      else
        let faceAdj = cutFaceAdj (faces m) (pathEdgeKeys path);
            groups = bfsComponents (zip [0..<length (faces m)] faceAdj) [0..<length (faces m)]
        in if length groups \<le> 1 then [] else map (createSubMesh emptyObject m) groups)"

text \<open>\<open>repairCylinder\<close>; \<open>Inr None\<close> is the result \<open>null\<close>.\<close>

definition repairCylinder :: "vertex \<Rightarrow> subMesh \<Rightarrow> topology \<Rightarrow> error + subMesh list option" where
  "repairCylinder emptyObject m topo =
     (let loops = separateBoundaryLoops (boundaryEdges topo)
      in if length loops < 2 then Inr None
         else
           case findShortestBridge m (loops ! 0) (loops ! 1) of
             Inl e \<Rightarrow> Inl e
           | Inr None \<Rightarrow> Inr None
           | Inr (Some b) \<Rightarrow>
               (case findGeodesicPath m (startV b) (endV b) of
                  Inl e \<Rightarrow> Inl e
                | Inr path \<Rightarrow>
                    if length path < 2 then Inr None
                    else
                      (case snapPathToBoundary m path (loops ! 0) (loops ! 1) of
                         Inl e \<Rightarrow> Inl e
                       | Inr path' \<Rightarrow>
                           (let result = cutMeshAlongPath emptyObject m path'
                            in if length result > 0 then Inr (Some result) else Inr None))))"

text \<open>The search of \<open>repairGeneric\<close> for the two sampled boundary vertices that are farthest
  apart.\<close>

definition farthestStep ::
  "'a mesh_scheme \<Rightarrow> nat \<times> nat \<Rightarrow> error + (real \<times> nat \<times> nat) \<Rightarrow> error + (real \<times> nat \<times> nat)" where
  "farthestStep m pair st =
     (case st of
        Inl e \<Rightarrow> Inl e
      | Inr (maxDist, pointA, pointB) \<Rightarrow>
          (case vertexDistance m (fst pair) (snd pair) of
             Inl e \<Rightarrow> Inl e
           | Inr dst \<Rightarrow>
               if dst > maxDist then Inr (dst, fst pair, snd pair)
               else Inr (maxDist, pointA, pointB)))"

text \<open>\<open>boundaryArray\<close>: the vertices of the boundary edges in the order of their first
  occurrence.\<close>

definition boundaryVertexArray :: "topology \<Rightarrow> nat list" where
  "boundaryVertexArray topo =
     fold (\<lambda>(v1, v2) acc. setAdd v2 (setAdd v1 acc)) (boundaryEdges topo) []"

text \<open>The pairs \<open>(boundaryArray[i], boundaryArray[j])\<close> that the two nested loops visit:
  \<open>i\<close> and \<open>j > i\<close> run over the multiples of \<open>step\<close>.\<close>

definition farthestPairs :: "nat list \<Rightarrow> (nat \<times> nat) list" where
  "farthestPairs boundaryArray =
     (let sampleSize = min 30 (length boundaryArray);
          step = max 1 (length boundaryArray div sampleSize);
          samples = filter (\<lambda>i. i mod step = 0) [0..<length boundaryArray]
      in concat (map (\<lambda>i. map (\<lambda>j. (boundaryArray ! i, boundaryArray ! j))
                            (filter (\<lambda>j. i < j) samples)) samples))"

definition farthestBoundaryPair :: "'a mesh_scheme \<Rightarrow> topology \<Rightarrow> error + (real \<times> nat \<times> nat)" where
  "farthestBoundaryPair m topo =
     fold (farthestStep m) (farthestPairs (boundaryVertexArray topo))
       (Inr (0, fst (hd (boundaryEdges topo)), snd (hd (boundaryEdges topo))))"

definition repairGeneric :: "vertex \<Rightarrow> subMesh \<Rightarrow> topology \<Rightarrow> error + subMesh list" where
  "repairGeneric emptyObject m topo =
     (if boundaryEdges topo = [] then Inr [m]
      else
        case farthestBoundaryPair m topo of
          Inl e \<Rightarrow> Inl e
        | Inr (maxDist, pointA, pointB) \<Rightarrow>
            (case findGeodesicPath m pointA pointB of
               Inl e \<Rightarrow> Inl e
             | Inr path \<Rightarrow>
                 if length path < 2 then Inr [m]
                 else (let result = cutMeshAlongPath emptyObject m path
                       in if length result > 0 then Inr result else Inr [m])))"

text \<open>The body of the loop of \<open>repairAll\<close>: what one sub-mesh contributes to \<open>results\<close>.\<close>

definition repairOne :: "vertex \<Rightarrow> nat \<Rightarrow> subMesh \<Rightarrow> error + subMesh list" where
  "repairOne emptyObject minF m =
     (if length (faces m) < minF then Inr []
      else
        let topo = computeEuler m
        in if euler topo = 1 then Inr [m]
           else if euler topo = 0 \<and> boundaryLoopCount topo \<ge> 2 then
             (case repairCylinder emptyObject m topo of
                Inl e \<Rightarrow> Inl e
              | Inr None \<Rightarrow> Inr [m]
              | Inr (Some fixed) \<Rightarrow> Inr fixed)
           else if euler topo = 2 \<and> boundaryLoopCount topo = 0 then Inr [m]
           else if euler topo < -1 then Inr [m]
           else repairGeneric emptyObject m topo)"

fun repairAll :: "vertex \<Rightarrow> subMesh list \<Rightarrow> nat \<Rightarrow> error + subMesh list" where
  "repairAll emptyObject [] minF = Inr []"
| "repairAll emptyObject (m # subMeshes) minF =
     (case repairOne emptyObject minF m of
        Inl e \<Rightarrow> Inl e
      | Inr rs \<Rightarrow>
          (case repairAll emptyObject subMeshes minF of
             Inl e \<Rightarrow> Inl e
           | Inr rest \<Rightarrow> Inr (rs @ rest)))"

text \<open>The default \<open>minFaces = 50\<close> of \<open>repairAll\<close>.\<close>

definition defaultRepairMinFaces :: nat where
  "defaultRepairMinFaces = 50"

text \<open>Step 1.2 of \<open>flattenMesh\<close>: the patch that goes on to the unfolding, and
  \<open>wasCylinder\<close>.\<close>

definition cylinderSurgery :: "vertex \<Rightarrow> subMesh \<Rightarrow> error + (subMesh \<times> bool)" where
  "cylinderSurgery emptyObject m =
     (let topo = computeEuler m
      in if euler topo \<noteq> 1 \<and> euler topo = 0 \<and> boundaryLoopCount topo \<ge> 2 then
           (case repairCylinder emptyObject m topo of
              Inl e \<Rightarrow> Inl e
            | Inr None \<Rightarrow> Inr (m, True)
            | Inr (Some fixed) \<Rightarrow> if length fixed > 0 then Inr (fixed ! 0, True) else Inr (m, True))
         else Inr (m, False))"

text \<open>A mesh given as the sub-mesh object that holds all of it.\<close>

definition asSubMesh :: "mesh \<Rightarrow> subMesh" where
  "asSubMesh m =
     \<lparr>vertices = vertices m, faces = faces m,
      globalToLocal = zip [0..<length (vertices m)] [0..<length (vertices m)],
      localToGlobal = [0..<length (vertices m)],
      originalFaceIndices = [0..<length (faces m)],
      internalRedVertices = None\<rparr>"

text \<open>An open cylinder: a band of six triangles between the triangle \<open>0, 1, 2\<close> at height 0
  and the triangle \<open>3, 4, 5\<close> at height 1.\<close>

definition bandMesh :: subMesh where
  "bandMesh =
     asSubMesh
       \<lparr>vertices = [plainVertex 1 0 0, plainVertex 0 1 0, plainVertex (-1) (-1) 0,
                    plainVertex 1 0 1, plainVertex 0 1 1, plainVertex (-1) (-1) 1],
        faces = [[0, 1, 3], [1, 4, 3], [1, 2, 4], [2, 5, 4], [2, 0, 5], [0, 3, 5]]\<rparr>"

definition bandTopology :: topology where
  "bandTopology =
     \<lparr>euler = 0, topo_V = 6, topo_E = 12, topo_F = 6,
      boundaryEdges = [(0, 1), (3, 4), (1, 2), (4, 5), (0, 2), (3, 5)],
      boundaryLoopCount = 2\<rparr>"

text \<open>Four triangles on six vertices, no two of which share an edge (every second face of
  an octahedron): \<open>\<chi> = 6 - 12 + 4 = -2\<close>.\<close>

definition complexMesh :: subMesh where
  "complexMesh =
     asSubMesh
       \<lparr>vertices = [plainVertex 1 0 0, plainVertex (-1) 0 0, plainVertex 0 1 0,
                    plainVertex 0 (-1) 0, plainVertex 0 0 1, plainVertex 0 0 (-1)],
        faces = [[0, 2, 4], [0, 3, 5], [1, 2, 5], [1, 3, 4]]\<rparr>"

text \<open>Four triangles on seven vertices, no two of which share an edge:
  \<open>\<chi> = 7 - 12 + 4 = -1\<close>.\<close>

definition fanMesh :: subMesh where
  "fanMesh =
     asSubMesh
       \<lparr>vertices = [plainVertex 0 0 0, plainVertex 1 0 0, plainVertex 0 1 0, plainVertex 0 0 1,
                    plainVertex 0 1 1, plainVertex 1 0 1, plainVertex 2 2 0],
        faces = [[0, 1, 2], [0, 3, 4], [0, 5, 6], [1, 3, 5]]\<rparr>"

definition complexTopology :: topology where
  "complexTopology =
     \<lparr>euler = -2, topo_V = 6, topo_E = 12, topo_F = 4,
      boundaryEdges = [(0, 2), (2, 4), (0, 4), (0, 3), (3, 5), (0, 5), (1, 2), (2, 5), (1, 5),
                       (1, 3), (3, 4), (1, 4)],
      boundaryLoopCount = 1\<rparr>"

definition fanTopology :: topology where
  "fanTopology =
     \<lparr>euler = -1, topo_V = 7, topo_E = 12, topo_F = 4,
      boundaryEdges = [(0, 1), (1, 2), (0, 2), (0, 3), (3, 4), (0, 4), (0, 5), (5, 6), (0, 6),
                       (1, 3), (3, 5), (1, 5)],
      boundaryLoopCount = 1\<rparr>"

subsection \<open>PhysicsFlattener\<close>

record relaxOptions =
  iterations :: nat
  boundaryStiffness :: real
  internalStiffness :: real
  pinBoundary :: bool
  damping :: real


text \<open>\<open>identifyBoundary\<close>: the keys of the edges that one face uses, and their end
  vertices.\<close>

definition identifyBoundaryEdges :: "face list \<Rightarrow> edgeKey list" where
  "identifyBoundaryEdges fs = map fst (filter (\<lambda>(key, count). count = 1) (edgeCount fs))"

definition identifyBoundaryVerts :: "face list \<Rightarrow> nat set" where
  "identifyBoundaryVerts fs = fst ` set (identifyBoundaryEdges fs) \<union> snd ` set (identifyBoundaryEdges fs)"

record constraint =
  c_u :: nat
  c_v :: nat
  c_restLength :: real
  c_stiffness :: real
  c_isBoundary :: bool

text \<open>The body of the inner loop of \<open>buildDifferentiatedConstraints\<close>; the state is
  \<open>edgeCheck\<close> and \<open>constraints\<close>.\<close>

definition addConstraint ::
  "vertex list \<Rightarrow> edgeKey list \<Rightarrow> real \<Rightarrow> real \<Rightarrow> nat \<times> nat
    \<Rightarrow> edgeKey list \<times> constraint list \<Rightarrow> edgeKey list \<times> constraint list" where
  "addConstraint vs boundaryEdgeKeys boundaryK internalK e s =
     (case s of (edgeCheck, constraints) \<Rightarrow>
        let key = edgeKey (fst e) (snd e)
        in if key \<in> set edgeCheck then (edgeCheck, constraints)
           else if \<not> (fst e < length vs \<and> snd e < length vs) then (edgeCheck @ [key], constraints)
           else
             let restLength = distance (vs ! fst e) (vs ! snd e)
             in if restLength < 1 / 10 ^ 10 then (edgeCheck @ [key], constraints)
                else (edgeCheck @ [key],
                      constraints @
                        [\<lparr>c_u = fst e, c_v = snd e, c_restLength = restLength,
                          c_stiffness = (if key \<in> set boundaryEdgeKeys then boundaryK else internalK),
                          c_isBoundary = (key \<in> set boundaryEdgeKeys)\<rparr>]))"

definition buildDifferentiatedConstraints ::
  "vertex list \<Rightarrow> face list \<Rightarrow> edgeKey list \<Rightarrow> real \<Rightarrow> real \<Rightarrow> constraint list" where
  "buildDifferentiatedConstraints vs fs boundaryEdgeKeys boundaryK internalK =
     snd (fold (addConstraint vs boundaryEdgeKeys boundaryK internalK)
            (concat (map faceEdges fs)) ([], []))"

text \<open>The force of one spring on its end \<open>u\<close>; \<open>None\<close> is the \<open>continue\<close> for a spring of
  length below \<open>1e-10\<close>.\<close>

definition springForce ::
  "real \<Rightarrow> real \<Rightarrow> real \<Rightarrow> real \<Rightarrow> real \<Rightarrow> real \<Rightarrow> (real \<times> real) option" where
  "springForce u_x u_y v_x v_y restLength stiffness =
     (let dx = v_x - u_x;
          dy = v_y - u_y;
          currentLen = sqrt (dx * dx + dy * dy)
      in if currentLen < 1 / 10 ^ 10 then None
         else
           let stretch = currentLen - restLength;
               forceMag = stiffness * stretch / currentLen
           in Some (dx * forceMag, dy * forceMag))"

text \<open>\<open>xs[i] += d\<close> on a typed array.\<close>

definition addAt :: "nat \<Rightarrow> real \<Rightarrow> real list \<Rightarrow> real list" where
  "addAt i d xs = xs[i := xs ! i + d]"

definition applySpring :: "real list \<Rightarrow> constraint \<Rightarrow> real list \<Rightarrow> real list" where
  "applySpring uvs c forces =
     (case springForce (uvs ! (c_u c * 2)) (uvs ! (c_u c * 2 + 1)) (uvs ! (c_v c * 2))
             (uvs ! (c_v c * 2 + 1)) (c_restLength c) (c_stiffness c) of
        None \<Rightarrow> forces
      | Some (fx, fy) \<Rightarrow>
          addAt (c_v c * 2 + 1) (- fy) (addAt (c_v c * 2) (- fx)
            (addAt (c_u c * 2 + 1) fy (addAt (c_u c * 2) fx forces))))"

definition dt :: real where
  "dt = 16 / 1000"

definition mass :: real where
  "mass = 1"

text \<open>The second loop of \<open>physicsStep\<close>; the state is \<open>currentUVs\<close> and \<open>velocities\<close>.\<close>

definition moveVertex ::
  "real list \<Rightarrow> nat set \<Rightarrow> bool \<Rightarrow> real \<Rightarrow> nat \<Rightarrow> real list \<times> real list \<Rightarrow> real list \<times> real list" where
  "moveVertex forces boundaryVerts pin damp i s =
     (case s of (uvs, vels) \<Rightarrow>
        if pin \<and> i \<in> boundaryVerts then (uvs, vels[i * 2 := 0, i * 2 + 1 := 0])
        else
          let vels1 = vels[i * 2 := (vels ! (i * 2) + forces ! (i * 2) * dt / mass) * damp];
              vels2 = vels1[i * 2 + 1 := (vels1 ! (i * 2 + 1) + forces ! (i * 2 + 1) * dt / mass) * damp]
          in (addAt (i * 2 + 1) (vels2 ! (i * 2 + 1) * dt) (addAt (i * 2) (vels2 ! (i * 2) * dt) uvs),
              vels2))"

definition physicsStep ::
  "real list \<Rightarrow> real list \<Rightarrow> constraint list \<Rightarrow> nat set \<Rightarrow> bool \<Rightarrow> real \<Rightarrow> real list \<times> real list" where
  "physicsStep uvs vels constraints boundaryVerts pin damp =
     (let forces = fold (applySpring uvs) constraints (replicate (length uvs) 0)
      in fold (moveVertex forces boundaryVerts pin damp) [0..<length uvs div 2] (uvs, vels))"

text \<open>The centroid loops: the sums of the \<open>u\<close> and of the \<open>v\<close> entries, divided by
  \<open>vertexCount\<close>.\<close>

definition centerU :: "nat \<Rightarrow> real list \<Rightarrow> real" where
  "centerU n uvs = fold (\<lambda>i acc. acc + uvs ! (i * 2)) [0..<n] 0 / real n"

definition centerV :: "nat \<Rightarrow> real list \<Rightarrow> real" where
  "centerV n uvs = fold (\<lambda>i acc. acc + uvs ! (i * 2 + 1)) [0..<n] 0 / real n"

text \<open>The drift cancellation: every vertex is moved by the difference between the initial
  and the new centroid.\<close>

definition translateAll :: "nat \<Rightarrow> real \<Rightarrow> real \<Rightarrow> real list \<Rightarrow> real list" where
  "translateAll n driftU driftV uvs =
     fold (\<lambda>i xs. addAt (i * 2 + 1) driftV (addAt (i * 2) driftU xs)) [0..<n] uvs"

definition cancelDrift :: "nat \<Rightarrow> real \<Rightarrow> real \<Rightarrow> real list \<Rightarrow> real list" where
  "cancelDrift n initialCenterU initialCenterV uvs =
     translateAll n (initialCenterU - centerU n uvs) (initialCenterV - centerV n uvs) uvs"

record relaxState =
  currentUVs :: "real list"
  velocities :: "real list"
  currentDamping :: real

text \<open>One round of \<open>for (let iter = 0; iter < iterations; iter++)\<close>.\<close>

definition relaxIteration ::
  "relaxOptions \<Rightarrow> constraint list \<Rightarrow> nat set \<Rightarrow> nat \<Rightarrow> real \<Rightarrow> real \<Rightarrow> nat \<Rightarrow> relaxState
    \<Rightarrow> relaxState" where
  "relaxIteration opts constraints boundaryVerts n initialCenterU initialCenterV iter st =
     (let stepped = physicsStep (currentUVs st) (velocities st) constraints boundaryVerts
                      (pinBoundary opts) (currentDamping st);
          uvs = (if \<not> pinBoundary opts
                 then cancelDrift n initialCenterU initialCenterV (fst stepped)
                 else fst stepped)
      in \<lparr>currentUVs = uvs, velocities = snd stepped,
          currentDamping =
            (if real iter > real (iterations opts) * (6 / 10)
             then currentDamping st * damping opts else currentDamping st)\<rparr>)"

text \<open>The state after the first \<open>k\<close> rounds of the loop, for a valid input
  (\<open>vertexCount \<ge> 3\<close> and one initial UV per vertex).\<close>

definition flattenUVs :: "real uv list \<Rightarrow> real list" where
  "flattenUVs initialUV = concat (map (\<lambda>p. [uv_u p, uv_v p]) initialUV)"

definition relaxAfter ::
  "nat \<Rightarrow> 'a mesh_scheme \<Rightarrow> real uv list \<Rightarrow> relaxOptions \<Rightarrow> relaxState" where
  "relaxAfter k m initialUV opts =
     (let n = length (vertices m);
          uvs0 = flattenUVs initialUV;
          boundaryEdgeKeys = identifyBoundaryEdges (faces m);
          constraints = buildDifferentiatedConstraints (vertices m) (faces m) boundaryEdgeKeys
                          (boundaryStiffness opts) (internalStiffness opts)
      in fold (relaxIteration opts constraints (identifyBoundaryVerts (faces m)) n
                 (centerU n uvs0) (centerV n uvs0))
           [0..<k]
           \<lparr>currentUVs = uvs0, velocities = replicate (n * 2) 0, currentDamping = 1\<rparr>)"

text \<open>\<open>createFallbackUVs\<close>\<close>

definition createFallbackUVs :: "nat \<Rightarrow> real uv list" where
  "createFallbackUVs count = map (\<lambda>i. \<lparr>uv_u = real i * (1 / 10), uv_v = 0\<rparr>) [0..<count]"

definition relaxDifferentiated ::
  "'a mesh_scheme \<Rightarrow> real uv list option \<Rightarrow> relaxOptions \<Rightarrow> real uv list" where
  "relaxDifferentiated m initialUV opts =
     (let n = length (vertices m)
      in if n < 3 \<or> initialUV = None \<or> length (the initialUV) \<noteq> n
         then (case initialUV of None \<Rightarrow> createFallbackUVs n | Some uvs \<Rightarrow> uvs)
         else
           let st = relaxAfter (iterations opts) m (the initialUV) opts
           in map (\<lambda>i. \<lparr>uv_u = currentUVs st ! (i * 2), uv_v = currentUVs st ! (i * 2 + 1)\<rparr>)
                [0..<n])"






subsection \<open>Notions used to state the properties of the flood fill\<close>

text \<open>The faces that the flood fill has marked (\<open>visited[i] !== 0\<close>).\<close>

definition marked :: "nat list \<Rightarrow> nat set" where
  "marked visited = {i. i < length visited \<and> visited ! i \<noteq> 0}"

text \<open>The neighbour relation that the flood fill walks: \<open>g\<close> is listed in
  \<open>adjacency[f]\<close> of the table that \<open>buildFaceAdjacency\<close> returns.\<close>

definition faceNeighbors :: "'a mesh_scheme \<Rightarrow> (nat \<times> nat) set" where
  "faceNeighbors m =
     {(f, g). f < length (faces m) \<and> g < length (faces m) \<and>
        g \<in> fst ` set (buildFaceAdjacency m ! f)}"

text \<open>The number of times an edge occurs among the edges of all faces.\<close>

definition edgeUseCount :: "face list \<Rightarrow> edgeKey \<Rightarrow> nat" where
  "edgeUseCount fs key = count_list (concat (map faceEdgeKeys fs)) key"

text \<open>Two distinct faces share an edge that is an edge of exactly two faces: the edge is an
  edge of both and occurs exactly twice among the edges of all faces. This relation is
  stated without the adjacency table of the code.\<close>

definition sharedEdgeNeighbors :: "'a mesh_scheme \<Rightarrow> (nat \<times> nat) set" where
  "sharedEdgeNeighbors m =
     {(f, g). f < length (faces m) \<and> g < length (faces m) \<and> f \<noteq> g \<and>
        (\<exists>key. key \<in> set (faceEdgeKeys (faces m ! f)) \<and>
               key \<in> set (faceEdgeKeys (faces m ! g)) \<and>
               edgeUseCount (faces m) key = 2)}"

text \<open>The faces among the first \<open>n\<close> that use an edge, in ascending order, one entry per
  use: the value that \<open>edgeToFaces\<close> holds for the edge after \<open>n\<close> faces.\<close>

definition usesUpTo :: "face list \<Rightarrow> nat \<Rightarrow> edgeKey \<Rightarrow> nat list" where
  "usesUpTo fs n key =
     concat (map (\<lambda>i. replicate (count_list (faceEdgeKeys (fs ! i)) key) i) [0..<n])"

text \<open>The invariant of the \<open>while\<close> loop of the flood fill when it starts from an unmarked
  array: the island and the queue hold exactly the marked faces, once each, and every
  neighbour of an island face across a non-seam edge is marked.\<close>

definition floodInv :: "adjacency \<Rightarrow> edgeKey set \<Rightarrow> nat list \<Rightarrow> nat list \<Rightarrow> nat list \<Rightarrow> bool" where
  "floodInv adjacency seamEdges visited queue island \<longleftrightarrow>
     length visited = length adjacency \<and>
     distinct (island @ queue) \<and> set (island @ queue) = marked visited \<and>
     (\<forall>f \<in> set island. \<forall>(g, e) \<in> set (adjacency ! f).
         g < length visited \<longrightarrow> edgeKey (fst e) (snd e) \<notin> seamEdges \<longrightarrow> g \<in> marked visited)"

text \<open>Two triangles that share the edge \<open>{1, 2}\<close>.\<close>

definition twoTrianglesMesh :: mesh where
  "twoTrianglesMesh =
     \<lparr>vertices = [plainVertex 0 0 0, plainVertex 1 0 0, plainVertex 0 1 0, plainVertex 1 1 0],
      faces = [[0, 1, 2], [1, 3, 2]]\<rparr>"

definition twoTrianglesOptions :: segmentOptions where
  "twoTrianglesOptions = \<lparr>minFaces = 2, assignBoundaryFaces = True, redVertices = {}\<rparr>"

section \<open>Properties\<close>

subsection \<open>Red vertices (C3)\<close>

text \<open>
  C3, as the code has it: a vertex index is returned by \<open>extractRedVertices\<close> exactly when
  the mesh has vertex colors, the index is in range and the color satisfies the strict
  comparisons \<open>r > redThreshold\<close>, \<open>g < greenMaxThreshold\<close>, \<open>b < blueMaxThreshold\<close>; with
  the thresholds of \<open>segmentParts\<close> these are \<open>r > 0.7\<close>, \<open>g < 0.4\<close>, \<open>b < 0.4\<close>.
\<close>

theorem extractRedVertices_strict:
  "i \<in> set (extractRedVertices segmentPartsRedOptions (Some m)) \<longleftrightarrow>
     hasVertexColors m \<and> i < length (vertexColors m) \<and>
     color_r (vertexColors m ! i) > 7 / 10 \<and>
     color_g (vertexColors m ! i) < 4 / 10 \<and>
     color_b (vertexColors m ! i) < 4 / 10"
  by (auto simp: extractRedVertices_def isRedColor_def segmentPartsRedOptions_def)

text \<open>
  C3 as stated fails on the threshold boundary: the vertex with color \<open>(0.7, 0.4, 0.4)\<close>
  satisfies \<open>r \<ge> 0.7\<close>, \<open>g \<le> 0.4\<close>, \<open>b \<le> 0.4\<close> and is not returned.
\<close>

theorem extractRedVertices_boundary_counterexample:
  "color_r \<lparr>color_r = 7 / 10, color_g = 4 / 10, color_b = 4 / 10\<rparr> \<ge> 7 / 10 \<and>
   color_g \<lparr>color_r = 7 / 10, color_g = 4 / 10, color_b = 4 / 10\<rparr> \<le> 4 / 10 \<and>
   color_b \<lparr>color_r = 7 / 10, color_g = 4 / 10, color_b = 4 / 10\<rparr> \<le> 4 / 10 \<and>
   0 \<notin> set (extractRedVertices segmentPartsRedOptions
     (Some \<lparr>hasVertexColors = True,
            vertexColors = [\<lparr>color_r = 7 / 10, color_g = 4 / 10, color_b = 4 / 10\<rparr>]\<rparr>))"
  by (simp add: extractRedVertices_def isRedColor_def segmentPartsRedOptions_def)

subsection \<open>Acceptance of UV candidates (C4)\<close>

text \<open>
  C4, as the code has it. A candidate is accepted exactly when it is an array with one UV
  per vertex; no coordinate is inspected. A call that throws, returns \<open>null\<close> or returns
  an array of another length yields no candidate. Phase 2 takes the first candidate among
  tube unrolling (when selected), LSCM and the BFS fan, and after them the planar
  projections. Phase 3 keeps the relaxer's result when it is a candidate; when the relaxer
  threw, returned \<open>null\<close> or an array of another length, it uses the initial embedding
  if that has one UV per vertex, and \<open>projectPlanarUV\<close> otherwise.
\<close>

theorem flattenMesh_accepts_by_length:
  "(acceptsUV n cand \<longleftrightarrow> (\<exists>uvs. cand = Some uvs \<and> length uvs = n)) \<and>
   tryCandidate n a =
     (case a of
        Returned (Some uvs) \<Rightarrow> if length uvs = n then Some uvs else None
      | _ \<Rightarrow> None) \<and>
   chooseInitialUV n useTube tube lscm bfs planarProjection projectPlanar =
     (case (if useTube then tryCandidate n tube else None) of
        Some uvs \<Rightarrow> Some uvs
      | None \<Rightarrow>
          (case tryCandidate n lscm of
             Some uvs \<Rightarrow> Some uvs
           | None \<Rightarrow>
               (case tryCandidate n bfs of
                  Some uvs \<Rightarrow> Some uvs
                | None \<Rightarrow>
                    if acceptsUV n planarProjection then planarProjection
                    else projectPlanar))) \<and>
   chooseFinalUV n initialUV relaxed projectPlanar =
     (case tryCandidate n relaxed of
        Some uvs \<Rightarrow> Some uvs
      | None \<Rightarrow> if acceptsUV n initialUV then initialUV else projectPlanar)"
proof (intro conjI)
  show "acceptsUV n cand \<longleftrightarrow> (\<exists>uvs. cand = Some uvs \<and> length uvs = n)"
    by (cases cand) (simp_all add: acceptsUV_def)
  show "tryCandidate n a =
     (case a of
        Returned (Some uvs) \<Rightarrow> if length uvs = n then Some uvs else None
      | _ \<Rightarrow> None)"
    by (simp add: tryCandidate_def acceptsUV_def split: attempt.splits option.splits)
  show "chooseInitialUV n useTube tube lscm bfs planarProjection projectPlanar =
     (case (if useTube then tryCandidate n tube else None) of
        Some uvs \<Rightarrow> Some uvs
      | None \<Rightarrow>
          (case tryCandidate n lscm of
             Some uvs \<Rightarrow> Some uvs
           | None \<Rightarrow>
               (case tryCandidate n bfs of
                  Some uvs \<Rightarrow> Some uvs
                | None \<Rightarrow>
                    if acceptsUV n planarProjection then planarProjection
                    else projectPlanar)))"
    by (auto simp: chooseInitialUV_def tryCandidate_def acceptsUV_def Let_def
          split: attempt.splits option.splits)
  show "chooseFinalUV n initialUV relaxed projectPlanar =
     (case tryCandidate n relaxed of
        Some uvs \<Rightarrow> Some uvs
      | None \<Rightarrow> if acceptsUV n initialUV then initialUV else projectPlanar)"
    by (auto simp: chooseFinalUV_def tryCandidate_def acceptsUV_def Let_def
          split: attempt.splits option.splits)
qed

text \<open>
  C4 as stated fails: a relaxed result of the right length with a \<open>NaN\<close> coordinate is
  kept, and the finite initial embedding is not used; an LSCM result of the right length
  with an infinite coordinate is accepted as the initial embedding.
\<close>

theorem flattenMesh_nonfinite_counterexample:
  "\<not> finiteUV \<lparr>uv_u = NaN, uv_v = Num 0\<rparr> \<and>
   chooseFinalUV 3
     (Some [\<lparr>uv_u = Num 0, uv_v = Num 0\<rparr>, \<lparr>uv_u = Num 1, uv_v = Num 0\<rparr>,
            \<lparr>uv_u = Num 0, uv_v = Num 1\<rparr>])
     (Returned (Some [\<lparr>uv_u = NaN, uv_v = Num 0\<rparr>, \<lparr>uv_u = Num 1, uv_v = Num 0\<rparr>,
                      \<lparr>uv_u = Num 0, uv_v = Num 1\<rparr>]))
     (Some [\<lparr>uv_u = Num 0, uv_v = Num 0\<rparr>, \<lparr>uv_u = Num 1, uv_v = Num 0\<rparr>,
            \<lparr>uv_u = Num 0, uv_v = Num 1\<rparr>])
   = Some [\<lparr>uv_u = NaN, uv_v = Num 0\<rparr>, \<lparr>uv_u = Num 1, uv_v = Num 0\<rparr>,
           \<lparr>uv_u = Num 0, uv_v = Num 1\<rparr>] \<and>
   chooseInitialUV 3 False Threw
     (Returned (Some [\<lparr>uv_u = PosInfinity, uv_v = Num 0\<rparr>, \<lparr>uv_u = Num 1, uv_v = Num 0\<rparr>,
                      \<lparr>uv_u = Num 0, uv_v = Num 1\<rparr>]))
     Threw None None
   = Some [\<lparr>uv_u = PosInfinity, uv_v = Num 0\<rparr>, \<lparr>uv_u = Num 1, uv_v = Num 0\<rparr>,
           \<lparr>uv_u = Num 0, uv_v = Num 1\<rparr>]"
  by (simp add: chooseFinalUV_def chooseInitialUV_def tryCandidate_def acceptsUV_def
        finiteUV_def)

subsection \<open>The kerf of the flood segmenter (C2, C10)\<close>

lemma set_fold_setAdd: "set (fold setAdd xs acc) = set xs \<union> set acc"
  by (induction xs arbitrary: acc) (auto simp: setAdd_def)

lemma distinct_fold_setAdd: "distinct acc \<Longrightarrow> distinct (fold setAdd xs acc)"
  by (induction xs arbitrary: acc) (auto simp: setAdd_def)

lemma map_of_zip_index:
  assumes "distinct us" "v \<in> set us"
  shows "\<exists>i. map_of (zip us [0..<length us]) v = Some i \<and> i < length us \<and> us ! i = v"
proof -
  from assms(2) obtain i where i: "i < length us" "us ! i = v"
    by (auto simp: in_set_conv_nth)
  have "map_of (zip us [0..<length us]) (us ! i) = Some ([0..<length us] ! i)"
    using assms(1) i(1) by (intro map_of_zip_nth) auto
  with i show ?thesis by auto
qed

lemma buildSubMeshWithKerf_Some:
  assumes "buildSubMeshWithKerf m faceIndices R = Inr (Some sm)"
  shows "originalFaceIndices sm =
           filter (\<lambda>faceIdx. \<not> hasRedVertex R (faces m ! faceIdx)) faceIndices"
    and "localToGlobal sm =
           fold setAdd (concat (map (\<lambda>faceIdx. faces m ! faceIdx) (originalFaceIndices sm))) []"
    and "faces sm =
           map (\<lambda>faceIdx. map (\<lambda>v. the (map_of (zip (localToGlobal sm)
                  [0..<length (localToGlobal sm)]) v)) (faces m ! faceIdx))
             (originalFaceIndices sm)"
    and "vertices sm =
           map (\<lambda>globalIdx. \<lparr>vx = vx (vertices m ! globalIdx), vy = vy (vertices m ! globalIdx),
                  vz = vz (vertices m ! globalIdx), vcolor = Some white\<rparr>) (localToGlobal sm)"
    and "\<forall>faceIdx \<in> set faceIndices. faceIdx < length (faces m)"
    and "\<forall>globalIdx \<in> set (localToGlobal sm). globalIdx < length (vertices m)"
  using assms
  by (auto simp: buildSubMeshWithKerf_def Let_def split: if_splits)

text \<open>Every patch of the segmenter is a kerf sub-mesh with the red vertices attached.\<close>

lemma buildSubMeshes_elem:
  "buildSubMeshes m minF R islands = Inr sms \<Longrightarrow> p \<in> set sms \<Longrightarrow>
     \<exists>faceIndices sm. faceIndices \<in> set islands \<and>
        buildSubMeshWithKerf m faceIndices R = Inr (Some sm) \<and> minF \<le> length (faces sm) \<and>
        p = sm\<lparr>internalRedVertices := Some (collectInternalRed m R faceIndices)\<rparr>"
proof (induction islands arbitrary: sms)
  case Nil
  then show ?case by simp
next
  case (Cons faceIndices islands)
  from Cons.prems(1) obtain r rest where
    r: "buildSubMeshWithKerf m faceIndices R = Inr r" and
    rest: "buildSubMeshes m minF R islands = Inr rest" and
    sms: "sms = (case r of None \<Rightarrow> rest
                 | Some sm \<Rightarrow> if minF \<le> length (faces sm)
                     then sm\<lparr>internalRedVertices := Some (collectInternalRed m R faceIndices)\<rparr> # rest
                     else rest)"
    by (auto split: if_splits sum.splits option.splits)
  show ?case
  proof (cases "p \<in> set rest")
    case True
    from Cons.IH [OF rest True] show ?thesis by auto
  next
    case False
    with Cons.prems(2) sms r show ?thesis
      by (auto split: option.splits if_splits)
  qed
qed

lemma segmentWithSeams_elem:
  assumes "segmentWithSeams m seamEdges options = Inr patches" and "p \<in> set patches"
  shows "\<exists>faceIndices sm.
           buildSubMeshWithKerf m faceIndices (redVertices options) = Inr (Some sm) \<and>
           minFaces options \<le> length (faces sm) \<and>
           p = sm\<lparr>internalRedVertices :=
                    Some (collectInternalRed m (redVertices options) faceIndices)\<rparr>"
proof -
  from assms(1) obtain islands where
    "buildSubMeshes m (minFaces options) (redVertices options) islands = Inr patches"
    by (auto simp: segmentWithSeams_def Let_def split: sum.splits)
  from buildSubMeshes_elem [OF this assms(2)] show ?thesis by blast
qed

lemma kerf_face_local:
  assumes sm: "buildSubMeshWithKerf m faceIndices R = Inr (Some sm)"
    and k: "k < length (faces sm)"
  shows "length (originalFaceIndices sm) = length (faces sm)"
    and "originalFaceIndices sm ! k \<in> set faceIndices"
    and "\<not> hasRedVertex R (faces m ! (originalFaceIndices sm ! k))"
    and "map (\<lambda>v. localToGlobal sm ! v) (faces sm ! k) = faces m ! (originalFaceIndices sm ! k)"
    and "\<forall>v \<in> set (faces sm ! k). v < length (localToGlobal sm)"
proof -
  note facts = buildSubMeshWithKerf_Some [OF sm]
  let ?us = "localToGlobal sm"
  let ?fi = "originalFaceIndices sm ! k"
  show len: "length (originalFaceIndices sm) = length (faces sm)"
    by (subst facts(3)) simp
  with k have kin: "?fi \<in> set (originalFaceIndices sm)" by simp
  with facts(1) show "?fi \<in> set faceIndices" and "\<not> hasRedVertex R (faces m ! ?fi)"
    by auto
  have dist: "distinct ?us" by (subst facts(2)) (simp add: distinct_fold_setAdd)
  have used: "set (faces m ! ?fi) \<subseteq> set ?us"
    using kin by (subst facts(2)) (auto simp: set_fold_setAdd)
  have fk: "faces sm ! k = map (\<lambda>v. the (map_of (zip ?us [0..<length ?us]) v)) (faces m ! ?fi)"
    using k len by (subst facts(3)) simp
  have each: "the (map_of (zip ?us [0..<length ?us]) v) < length ?us \<and>
              ?us ! the (map_of (zip ?us [0..<length ?us]) v) = v"
    if "v \<in> set (faces m ! ?fi)" for v
  proof -
    from that used have "v \<in> set ?us" by blast
    from map_of_zip_index [OF dist this] show ?thesis by auto
  qed
  show "map (\<lambda>v. ?us ! v) (faces sm ! k) = faces m ! ?fi"
    unfolding fk using each by (simp add: map_idI)
  show "\<forall>v \<in> set (faces sm ! k). v < length ?us"
    unfolding fk using each by auto
qed

lemma kerfExample_segments:
  "segmentWithSeams kerfExampleMesh {} kerfExampleOptions = Inr kerfExamplePatches"
  by code_simp

text \<open>
  C10: every vertex of every patch that \<open>segmentWithSeams\<close> returns has the color
  \<open>(r, g, b) = (1, 1, 1)\<close>: the copy made by \<open>buildSubMeshWithKerf\<close> overwrites the color
  with white.
\<close>

theorem segmentWithSeams_vertices_white:
  assumes "segmentWithSeams m seamEdges options = Inr patches"
    and "p \<in> set patches" and "v \<in> set (vertices p)"
  shows "vcolor v = Some \<lparr>color_r = 1, color_g = 1, color_b = 1\<rparr>"
proof -
  from segmentWithSeams_elem [OF assms(1,2)] obtain faceIndices sm where
    sm: "buildSubMeshWithKerf m faceIndices (redVertices options) = Inr (Some sm)" and
    p: "p = sm\<lparr>internalRedVertices :=
                 Some (collectInternalRed m (redVertices options) faceIndices)\<rparr>"
    by blast
  from assms(3) p have "v \<in> set (vertices sm)" by simp
  then show ?thesis
    by (subst (asm) buildSubMeshWithKerf_Some(4) [OF sm]) (auto simp: white_def)
qed

theorem segmentWithSeams_vertices_white_witness:
  "\<exists>patches p v. segmentWithSeams kerfExampleMesh {} kerfExampleOptions = Inr patches \<and>
     p \<in> set patches \<and> v \<in> set (vertices p) \<and>
     vcolor v = Some \<lparr>color_r = 1, color_g = 1, color_b = 1\<rparr>"
proof -
  let ?p = "hd kerfExamplePatches"
  let ?v = "hd (vertices ?p)"
  have p: "?p \<in> set kerfExamplePatches" by (simp add: kerfExamplePatches_def)
  have v: "?v \<in> set (vertices ?p)" by (simp add: kerfExamplePatches_def)
  have "vcolor ?v = Some \<lparr>color_r = 1, color_g = 1, color_b = 1\<rparr>"
    by (rule segmentWithSeams_vertices_white [OF kerfExample_segments p v])
  with kerfExample_segments p v show ?thesis by blast
qed

text \<open>
  C2: in every patch that \<open>segmentWithSeams\<close> returns, every face is an input face given in
  local indices (\<open>localToGlobal\<close> maps it back to the input face \<open>originalFaceIndices[k]\<close>),
  and none of its vertices lies in the red-vertex set \<open>R\<close>, whatever the mesh, the barrier
  edges and \<open>R\<close> are.
\<close>

theorem segmentWithSeams_red_free:
  assumes "segmentWithSeams m seamEdges options = Inr patches"
    and "p \<in> set patches" and "k < length (faces p)"
  shows "k < length (originalFaceIndices p) \<and>
         map (\<lambda>v. localToGlobal p ! v) (faces p ! k) = faces m ! (originalFaceIndices p ! k) \<and>
         \<not> hasRedVertex (redVertices options) (faces m ! (originalFaceIndices p ! k)) \<and>
         (\<forall>v \<in> set (faces p ! k).
            v < length (localToGlobal p) \<and> localToGlobal p ! v \<notin> redVertices options)"
proof -
  from segmentWithSeams_elem [OF assms(1,2)] obtain faceIndices sm where
    sm: "buildSubMeshWithKerf m faceIndices (redVertices options) = Inr (Some sm)" and
    p: "p = sm\<lparr>internalRedVertices :=
                 Some (collectInternalRed m (redVertices options) faceIndices)\<rparr>"
    by blast
  from assms(3) p have k: "k < length (faces sm)" by simp
  note loc = kerf_face_local [OF sm k]
  have "localToGlobal sm ! v \<in> set (faces m ! (originalFaceIndices sm ! k))"
    if "v \<in> set (faces sm ! k)" for v
    using that loc(4) by (metis image_eqI set_map)
  with loc(3) have "localToGlobal sm ! v \<notin> redVertices options"
    if "v \<in> set (faces sm ! k)" for v
    using that by (auto simp: hasRedVertex_def)
  with loc k show ?thesis by (simp add: p)
qed

theorem segmentWithSeams_red_free_witness:
  "\<exists>patches p k. segmentWithSeams kerfExampleMesh {} kerfExampleOptions = Inr patches \<and>
     p \<in> set patches \<and> k < length (faces p) \<and>
     map (\<lambda>v. localToGlobal p ! v) (faces p ! k) =
       faces kerfExampleMesh ! (originalFaceIndices p ! k) \<and>
     \<not> hasRedVertex (redVertices kerfExampleOptions)
         (faces kerfExampleMesh ! (originalFaceIndices p ! k))"
proof -
  let ?p = "hd kerfExamplePatches"
  have p: "?p \<in> set kerfExamplePatches" by (simp add: kerfExamplePatches_def)
  have k: "0 < length (faces ?p)" by (simp add: kerfExamplePatches_def)
  from segmentWithSeams_red_free [OF kerfExample_segments p k] kerfExample_segments p k
  show ?thesis by blast
qed

subsection \<open>The flood fill without barrier edges (C7)\<close>

lemma marked_update:
  "i < length visited \<Longrightarrow> marked (visited[i := Suc 0]) = insert i (marked visited)"
  by (auto simp: marked_def nth_list_update)

lemma visitNeighbor_cases:
  assumes "visitNeighbor seamEdges (g, e) (visited, queue) = (visited', queue')"
  shows "(visited' = visited \<and> queue' = queue \<and>
            (g < length visited \<longrightarrow> edgeKey (fst e) (snd e) \<notin> seamEdges \<longrightarrow> g \<in> marked visited)) \<or>
         (g < length visited \<and> g \<notin> marked visited \<and> edgeKey (fst e) (snd e) \<notin> seamEdges \<and>
            visited' = visited[g := Suc 0] \<and> queue' = queue @ [g])"
  using assms by (auto simp: visitNeighbor_def marked_def split: if_splits)

lemma fold_visitNeighbor:
  assumes "fold (visitNeighbor seamEdges) nbs (visited, queue) = (visited', queue')"
  shows "length visited' = length visited \<and>
         (\<exists>new. queue' = queue @ new \<and> distinct new \<and> set new \<inter> marked visited = {} \<and>
                marked visited' = marked visited \<union> set new) \<and>
         (\<forall>(g, e) \<in> set nbs. g < length visited \<longrightarrow> edgeKey (fst e) (snd e) \<notin> seamEdges
              \<longrightarrow> g \<in> marked visited')"
  using assms
proof (induction nbs arbitrary: visited queue)
  case Nil
  then show ?case by simp
next
  case (Cons nb nbs)
  obtain g e where nb: "nb = (g, e)" by (cases nb)
  obtain v1 q1 where step: "visitNeighbor seamEdges (g, e) (visited, queue) = (v1, q1)"
    by (cases "visitNeighbor seamEdges (g, e) (visited, queue)")
  with Cons.prems nb have rest: "fold (visitNeighbor seamEdges) nbs (v1, q1) = (visited', queue')"
    by simp
  from Cons.IH [OF rest] obtain new where
    len: "length visited' = length v1" and
    new: "queue' = q1 @ new" "distinct new" "set new \<inter> marked v1 = {}"
         "marked visited' = marked v1 \<union> set new" and
    cl: "\<forall>(g, e) \<in> set nbs. g < length v1 \<longrightarrow> edgeKey (fst e) (snd e) \<notin> seamEdges
              \<longrightarrow> g \<in> marked visited'"
    by blast
  from visitNeighbor_cases [OF step] show ?case
  proof (elim disjE conjE)
    assume same: "v1 = visited" "q1 = queue"
      and g: "g < length visited \<longrightarrow> edgeKey (fst e) (snd e) \<notin> seamEdges \<longrightarrow> g \<in> marked visited"
    from same len new cl g show ?thesis
      unfolding nb by (intro conjI exI [of _ new]) auto
  next
    assume g: "g < length visited" "g \<notin> marked visited"
      and upd: "v1 = visited[g := Suc 0]" "q1 = queue @ [g]"
    have m1: "marked v1 = insert g (marked visited)"
      unfolding upd by (rule marked_update [OF g(1)])
    have "queue' = queue @ (g # new)" using new(1) upd(2) by simp
    moreover have "distinct (g # new)" using new(2,3) m1 by auto
    moreover have "set (g # new) \<inter> marked visited = {}" using new(3) m1 g(2) by auto
    moreover have "marked visited' = marked visited \<union> set (g # new)" using new(4) m1 by auto
    ultimately have ex: "\<exists>new. queue' = queue @ new \<and> distinct new \<and>
        set new \<inter> marked visited = {} \<and> marked visited' = marked visited \<union> set new"
      by blast
    have "length visited' = length visited" using len upd(1) by simp
    moreover have "\<forall>(g, e) \<in> set (nb # nbs). g < length visited \<longrightarrow>
        edgeKey (fst e) (snd e) \<notin> seamEdges \<longrightarrow> g \<in> marked visited'"
      using cl new(4) m1 upd(1) unfolding nb by auto
    ultimately show ?thesis using ex by blast
  qed
qed

lemma floodInv_step:
  assumes inv: "floodInv adjacency seamEdges visited queue island" and ne: "queue \<noteq> []"
  shows "last queue < length adjacency"
    and "marked visited \<subseteq> marked
           (fst (fold (visitNeighbor seamEdges) (adjacency ! last queue) (visited, butlast queue)))"
    and "floodInv adjacency seamEdges
           (fst (fold (visitNeighbor seamEdges) (adjacency ! last queue) (visited, butlast queue)))
           (snd (fold (visitNeighbor seamEdges) (adjacency ! last queue) (visited, butlast queue)))
           (island @ [last queue])"
proof -
  let ?f = "last queue" and ?q0 = "butlast queue"
  from ne have q: "queue = ?q0 @ [?f]" by simp
  from inv have len: "length visited = length adjacency"
    and dist: "distinct (island @ queue)"
    and mk: "set (island @ queue) = marked visited"
    and cl: "\<forall>f \<in> set island. \<forall>(g, e) \<in> set (adjacency ! f).
         g < length visited \<longrightarrow> edgeKey (fst e) (snd e) \<notin> seamEdges \<longrightarrow> g \<in> marked visited"
    unfolding floodInv_def by blast+
  from ne mk have "?f \<in> marked visited" by auto
  with len show "?f < length adjacency" by (simp add: marked_def)
  obtain v' q' where s: "fold (visitNeighbor seamEdges) (adjacency ! ?f) (visited, ?q0) = (v', q')"
    by (cases "fold (visitNeighbor seamEdges) (adjacency ! ?f) (visited, ?q0)")
  from fold_visitNeighbor [OF s] obtain new where
    len': "length v' = length visited" and
    new: "q' = ?q0 @ new" "distinct new" "set new \<inter> marked visited = {}"
         "marked v' = marked visited \<union> set new" and
    cl': "\<forall>(g, e) \<in> set (adjacency ! ?f). g < length visited \<longrightarrow>
            edgeKey (fst e) (snd e) \<notin> seamEdges \<longrightarrow> g \<in> marked v'"
    by blast
  show "marked visited \<subseteq> marked
           (fst (fold (visitNeighbor seamEdges) (adjacency ! ?f) (visited, ?q0)))"
    unfolding s using new(4) by simp
  have d: "distinct ((island @ [?f]) @ q')"
  proof -
    from dist q have "distinct (island @ ?q0 @ [?f])" by simp
    moreover from mk q new(3) have "set new \<inter> set (island @ ?q0 @ [?f]) = {}" by auto
    ultimately show ?thesis using new(1,2) by auto
  qed
  have m: "set ((island @ [?f]) @ q') = marked v'"
  proof -
    have "set ((island @ [?f]) @ q') = set (island @ ?q0 @ [?f]) \<union> set new"
      using new(1) by auto
    also have "set (island @ ?q0 @ [?f]) = marked visited" using mk q by metis
    finally show ?thesis using new(4) by simp
  qed
  have c: "\<forall>f \<in> set (island @ [?f]). \<forall>(g, e) \<in> set (adjacency ! f).
         g < length v' \<longrightarrow> edgeKey (fst e) (snd e) \<notin> seamEdges \<longrightarrow> g \<in> marked v'"
    using cl cl' new(4) len' by auto
  show "floodInv adjacency seamEdges
           (fst (fold (visitNeighbor seamEdges) (adjacency ! ?f) (visited, ?q0)))
           (snd (fold (visitNeighbor seamEdges) (adjacency ! ?f) (visited, ?q0)))
           (island @ [?f])"
    unfolding s floodInv_def using len len' d m c by simp
qed

lemma floodLoop_inv:
  "floodInv adjacency seamEdges visited queue island \<Longrightarrow>
     \<exists>visited' island'. floodLoop adjacency seamEdges visited queue island = Inr (visited', island') \<and>
        floodInv adjacency seamEdges visited' [] island' \<and> marked visited \<subseteq> marked visited'"
proof (induction adjacency seamEdges visited queue island rule: floodLoop.induct)
  case (1 adjacency seamEdges visited queue currentIsland)
  show ?case
  proof (cases "queue = []")
    case True
    with "1.prems" show ?thesis by (subst floodLoop.simps) simp
  next
    case False
    note step = floodInv_step [OF "1.prems" False]
    from step(1) False have nf: "\<not> \<not> last queue < length adjacency" by simp
    from "1.IH" [OF False nf step(3)] step(2) show ?thesis
      using False step(1) by (subst floodLoop.simps) auto
  qed
qed

lemma length_arrayPush: "length (arrayPush i x xs) = length xs"
  by (simp add: arrayPush_def)

lemma length_buildFaceAdjacency: "length (buildFaceAdjacency m) = length (faces m)"
proof -
  have "length (fold (\<lambda>(key, faceInfos) adj.
             case faceInfos of
               [f1, f2] \<Rightarrow> arrayPush f2 (f1, key) (arrayPush f1 (f2, key) adj)
             | _ \<Rightarrow> adj) entries adj0) = length adj0"
    for entries :: "(edgeKey \<times> nat list) list" and adj0 :: adjacency
    by (induction entries arbitrary: adj0)
      (auto simp: length_arrayPush split: list.splits)
  then show ?thesis by (simp add: buildFaceAdjacency_def)
qed

lemma collectBoundaryFaces_empty: "collectBoundaryFaces m {} = []"
  by (simp add: collectBoundaryFaces_def)

lemma fold_floodStart_marked:
  "set starts \<subseteq> marked visited \<Longrightarrow>
     fold (floodStart adjacency seamEdges) starts (Inr (visited, islands)) = Inr (visited, islands)"
  by (induction starts) (auto simp: floodStart_def marked_def)

lemma sortIslands_single: "sortIslands [island] = [island]"
  by (simp add: sortIslands_def)

lemma assignBoundaryFaces_none:
  "assignBoundaryFacesByAdjacency adjacency islands [] = Inr islands"
  by (simp add: assignBoundaryFacesByAdjacency_def assignLoop.simps)

lemma floodInv_initial:
  assumes "0 < length adjacency"
  shows "floodInv adjacency seamEdges ((replicate (length adjacency) 0)[0 := Suc 0]) [0] []"
  using assms by (auto simp: floodInv_def marked_def nth_list_update)

lemma floodInvD:
  assumes "floodInv adjacency seamEdges visited queue island"
  shows "length visited = length adjacency"
    and "distinct (island @ queue)"
    and "set (island @ queue) = marked visited"
    and "\<And>f g e. f \<in> set island \<Longrightarrow> (g, e) \<in> set (adjacency ! f) \<Longrightarrow> g < length visited \<Longrightarrow>
           edgeKey (fst e) (snd e) \<notin> seamEdges \<Longrightarrow> g \<in> marked visited"
proof -
  from assms have raw: "length visited = length adjacency \<and>
     distinct (island @ queue) \<and> set (island @ queue) = marked visited \<and>
     (\<forall>f \<in> set island. \<forall>(g, e) \<in> set (adjacency ! f).
         g < length visited \<longrightarrow> edgeKey (fst e) (snd e) \<notin> seamEdges \<longrightarrow> g \<in> marked visited)"
    unfolding floodInv_def .
  from raw show "length visited = length adjacency" by (elim conjE)
  from raw show "distinct (island @ queue)" by (elim conjE)
  from raw show "set (island @ queue) = marked visited" by (elim conjE)
  fix f g e
  assume "f \<in> set island" "(g, e) \<in> set (adjacency ! f)" "g < length visited"
    "edgeKey (fst e) (snd e) \<notin> seamEdges"
  moreover from raw have "\<forall>f \<in> set island. \<forall>(g, e) \<in> set (adjacency ! f).
         g < length visited \<longrightarrow> edgeKey (fst e) (snd e) \<notin> seamEdges \<longrightarrow> g \<in> marked visited"
    by (elim conjE)
  ultimately show "g \<in> marked visited" by blast
qed

lemma floodInv_closed:
  assumes inv: "floodInv (buildFaceAdjacency m) {} visited [] island"
    and reach: "(f, g) \<in> (faceNeighbors m)\<^sup>*" and f: "f \<in> set island"
  shows "g \<in> set island"
  using reach f
proof (induction rule: rtrancl_induct)
  case base
  then show ?case .
next
  case (step y z)
  from step.IH step.prems have y: "y \<in> set island" by simp
  from step.hyps(2) obtain e where
    z: "z < length (faces m)" "(z, e) \<in> set (buildFaceAdjacency m ! y)"
    by (auto simp: faceNeighbors_def)
  note d = floodInvD [OF inv]
  from d(4) [OF y z(2)] z(1) d(1) have "z \<in> marked visited"
    by (simp add: length_buildFaceAdjacency)
  with d(3) show ?case by simp
qed

text \<open>With no barrier and a connected face graph the flood fill finds one island that holds
  every face.\<close>

lemma floodFill_connected:
  assumes n: "0 < length (faces m)"
    and conn: "\<forall>f < length (faces m). (0, f) \<in> (faceNeighbors m)\<^sup>*"
  shows "\<exists>island. floodFillExcludingBoundary m (buildFaceAdjacency m) {} [] = Inr [island] \<and>
           distinct island \<and> set island = {..<length (faces m)}"
proof -
  let ?adj = "buildFaceAdjacency m" and ?n = "length (faces m)"
  have len: "length ?adj = ?n" by (rule length_buildFaceAdjacency)
  from n len have "floodInv ?adj {} ((replicate (length ?adj) 0)[0 := Suc 0]) [0] []"
    by (intro floodInv_initial) simp
  from floodLoop_inv [OF this] obtain visited' island where
    loop: "floodLoop ?adj {} ((replicate ?n 0)[0 := Suc 0]) [0] [] = Inr (visited', island)" and
    inv: "floodInv ?adj {} visited' [] island" and
    mono: "marked ((replicate ?n 0)[0 := Suc 0]) \<subseteq> marked visited'"
    unfolding len by blast
  from floodInvD(1-3) [OF inv] have lv: "length visited' = ?n" and dist: "distinct island"
    and mk: "set island = marked visited'"
    by (simp_all add: len)
  from n have "0 \<in> marked ((replicate ?n 0)[0 := Suc 0])" by (simp add: marked_def)
  with mono mk have zero: "0 \<in> set island" by blast
  have all: "set island = {..<?n}"
  proof
    show "set island \<subseteq> {..<?n}" using mk lv by (auto simp: marked_def)
    show "{..<?n} \<subseteq> set island"
    proof
      fix f assume "f \<in> {..<?n}"
      with conn have "(0, f) \<in> (faceNeighbors m)\<^sup>*" by simp
      from floodInv_closed [OF inv this zero] show "f \<in> set island" .
    qed
  qed
  have upt: "[0..<?n] = 0 # [Suc 0..<?n]" using n by (simp add: upt_conv_Cons)
  have rest: "set [Suc 0..<?n] \<subseteq> marked visited'"
  proof
    fix x assume "x \<in> set [Suc 0..<?n]"
    then have "x \<in> {..<?n}" by simp
    then have "x \<in> set island" unfolding all .
    then show "x \<in> marked visited'" unfolding mk .
  qed
  from zero have ne: "0 < length island" by (cases island) simp_all
  have "floodStart ?adj {} 0 (Inr (replicate ?n 0, [])) =
      (case floodLoop ?adj {} ((replicate ?n 0)[0 := Suc 0]) [0] [] of
         Inl e \<Rightarrow> Inl e
       | Inr (v', cur) \<Rightarrow> Inr (v', if length cur > 0 then [] @ [cur] else []))"
    using n by (simp add: floodStart_def)
  then have first: "floodStart ?adj {} 0 (Inr (replicate ?n 0, [])) = Inr (visited', [island])"
    unfolding loop using ne by simp
  have "fold (floodStart ?adj {}) [0..<?n] (Inr (replicate ?n 0, [])) =
      fold (floodStart ?adj {}) [Suc 0..<?n] (floodStart ?adj {} 0 (Inr (replicate ?n 0, [])))"
    by (subst upt) simp
  also have "\<dots> = Inr (visited', [island])"
    unfolding first by (rule fold_floodStart_marked [OF rest])
  finally have "fold (floodStart ?adj {}) [0..<?n] (Inr (replicate ?n 0, [])) =
      Inr (visited', [island])" .
  then have "floodFillExcludingBoundary m ?adj {} [] = Inr [island]"
    by (simp add: floodFillExcludingBoundary_def sortIslands_single)
  with dist all show ?thesis by blast
qed

lemma buildSubMeshWithKerf_clean:
  assumes wf: "\<forall>f \<in> set (faces m). \<forall>v \<in> set f. v < length (vertices m) \<and> v \<notin> R"
    and inr: "set island \<subseteq> {..<length (faces m)}" and ne: "island \<noteq> []"
  shows "\<exists>sm. buildSubMeshWithKerf m island R = Inr (Some sm) \<and>
           originalFaceIndices sm = island \<and> length (faces sm) = length island"
proof -
  have face: "faces m ! faceIdx \<in> set (faces m)" if "faceIdx \<in> set island" for faceIdx
    using that inr by auto
  have clean: "filter (\<lambda>faceIdx. \<not> hasRedVertex R (faces m ! faceIdx)) island = island"
    using wf face by (auto simp: hasRedVertex_def filter_id_conv)
  have used: "\<forall>globalIdx \<in> set (fold setAdd (concat (map (\<lambda>faceIdx. faces m ! faceIdx) island)) []).
      globalIdx < length (vertices m)"
    using wf face by (auto simp: set_fold_setAdd)
  have inrange: "\<not> (\<exists>faceIdx \<in> set island. \<not> faceIdx < length (faces m))"
    using inr by auto
  show ?thesis
    unfolding buildSubMeshWithKerf_def Let_def clean
    using used inrange ne by auto
qed

text \<open>The table of \<open>buildFaceAdjacency\<close> lists every pair of faces that share an edge of
  exactly two faces.\<close>

lemma mapPush_map_of:
  "map_of (mapPush k v h) k' =
     (if k' = k then Some ((case map_of h k of None \<Rightarrow> [] | Some l \<Rightarrow> l) @ [v])
      else map_of h k')"
  by (induction h) auto

lemma fold_mapPush_map_of:
  "map_of (fold (\<lambda>key. mapPush key v) ks h) k =
     (if count_list ks k = 0 then map_of h k
      else Some ((case map_of h k of None \<Rightarrow> [] | Some l \<Rightarrow> l) @
                 replicate (count_list ks k) v))"
proof (induction ks arbitrary: h)
  case Nil
  then show ?case by simp
next
  case (Cons a ks)
  show ?case
    by (simp add: Cons.IH mapPush_map_of replicate_app_Cons_same)
qed

lemma edgeToFaces_upto:
  "map_of (fold (\<lambda>faceIdx m. fold (\<lambda>key. mapPush key faceIdx) (faceEdgeKeys (fs ! faceIdx)) m)
             [0..<n] []) key =
     (if usesUpTo fs n key = [] then None else Some (usesUpTo fs n key))"
proof (induction n)
  case 0
  then show ?case by (simp add: usesUpTo_def)
next
  case (Suc n)
  have u: "usesUpTo fs (Suc n) key =
      usesUpTo fs n key @ replicate (count_list (faceEdgeKeys (fs ! n)) key) n"
    by (simp add: usesUpTo_def)
  show ?case
    by (simp add: fold_mapPush_map_of Suc.IH u)
qed

lemma length_usesUpTo:
  "length (usesUpTo fs (length fs) key) = edgeUseCount fs key"
proof -
  have "length (usesUpTo fs n key) =
      (\<Sum>i\<leftarrow>[0..<n]. count_list (faceEdgeKeys (fs ! i)) key)" for n
    by (induction n) (simp_all add: usesUpTo_def)
  moreover have "edgeUseCount gs key = (\<Sum>f\<leftarrow>gs. count_list (faceEdgeKeys f) key)" for gs
    by (induction gs) (simp_all add: edgeUseCount_def)
  moreover have "map (\<lambda>i. count_list (faceEdgeKeys (fs ! i)) key) [0..<length fs] =
      map (\<lambda>f. count_list (faceEdgeKeys f) key) fs"
    by (rule nth_equalityI) simp_all
  ultimately show ?thesis by simp
qed

lemma set_usesUpTo:
  "i < n \<Longrightarrow> key \<in> set (faceEdgeKeys (fs ! i)) \<Longrightarrow> i \<in> set (usesUpTo fs n key)"
  by (auto simp: usesUpTo_def count_list_0_iff intro!: bexI [of _ i])

lemma two_elements:
  "length xs = 2 \<Longrightarrow> f \<in> set xs \<Longrightarrow> g \<in> set xs \<Longrightarrow> f \<noteq> g \<Longrightarrow> xs = [f, g] \<or> xs = [g, f]"
  by (cases xs; cases "tl xs") auto

lemma adjacency_step_mono:
  assumes "i < length adj"
  shows "set (adj ! i) \<subseteq>
   set ((case faceInfos of
          [f1, f2] \<Rightarrow> arrayPush f2 (f1, key) (arrayPush f1 (f2, key) adj)
        | _ \<Rightarrow> adj) ! i)"
proof (cases "\<exists>f1 f2. faceInfos = [f1, f2]")
  case True
  then obtain f1 f2 where fi: "faceInfos = [f1, f2]" by blast
  have "set (adj ! i) \<subseteq> set (arrayPush f1 (f2, key) adj ! i)"
    using assms by (cases "i = f1") (auto simp: arrayPush_def)
  also have "\<dots> \<subseteq> set (arrayPush f2 (f1, key) (arrayPush f1 (f2, key) adj) ! i)"
    using assms by (cases "i = f2") (auto simp: arrayPush_def)
  finally show ?thesis by (simp add: fi)
next
  case False
  then have "(case faceInfos of
          [f1, f2] \<Rightarrow> arrayPush f2 (f1, key) (arrayPush f1 (f2, key) adj)
        | _ \<Rightarrow> adj) = adj"
    by (auto split: list.splits)
  then show ?thesis by simp
qed

lemma adjacency_fold_mono:
  "i < length adj0 \<Longrightarrow> set (adj0 ! i) \<subseteq>
   set (fold (\<lambda>(key, faceInfos) adj.
               case faceInfos of
                 [f1, f2] \<Rightarrow> arrayPush f2 (f1, key) (arrayPush f1 (f2, key) adj)
               | _ \<Rightarrow> adj) entries adj0 ! i)"
proof (induction entries arbitrary: adj0)
  case Nil
  then show ?case by simp
next
  case (Cons e entries)
  obtain key faceInfos where e: "e = (key, faceInfos)" by (cases e)
  let ?adj1 = "case faceInfos of
                 [f1, f2] \<Rightarrow> arrayPush f2 (f1, key) (arrayPush f1 (f2, key) adj0)
               | _ \<Rightarrow> adj0"
  have len: "length ?adj1 = length adj0"
    by (auto simp: length_arrayPush split: list.splits)
  have "set (adj0 ! i) \<subseteq> set (?adj1 ! i)"
    using Cons.prems by (rule adjacency_step_mono)
  also have "\<dots> \<subseteq> set (fold (\<lambda>(key, faceInfos) adj.
               case faceInfos of
                 [f1, f2] \<Rightarrow> arrayPush f2 (f1, key) (arrayPush f1 (f2, key) adj)
               | _ \<Rightarrow> adj) entries ?adj1 ! i)"
    using Cons.prems len by (intro Cons.IH) simp
  finally show ?case unfolding e by simp
qed

lemma adjacency_fold_pair:
  assumes "(key, [f1, f2]) \<in> set entries" and "f1 < length adj0" and "f2 < length adj0"
  shows "(f2, key) \<in> set (fold (\<lambda>(key, faceInfos) adj.
               case faceInfos of
                 [f1, f2] \<Rightarrow> arrayPush f2 (f1, key) (arrayPush f1 (f2, key) adj)
               | _ \<Rightarrow> adj) entries adj0 ! f1) \<and>
         (f1, key) \<in> set (fold (\<lambda>(key, faceInfos) adj.
               case faceInfos of
                 [f1, f2] \<Rightarrow> arrayPush f2 (f1, key) (arrayPush f1 (f2, key) adj)
               | _ \<Rightarrow> adj) entries adj0 ! f2)"
  using assms
proof (induction entries arbitrary: adj0)
  case Nil
  then show ?case by simp
next
  case (Cons e entries)
  let ?step = "\<lambda>(key, faceInfos) adj.
               case faceInfos of
                 [f1, f2] \<Rightarrow> arrayPush f2 (f1, key) (arrayPush f1 (f2, key) adj)
               | _ \<Rightarrow> adj"
  show ?case
  proof (cases "e = (key, [f1, f2])")
    case True
    let ?adj1 = "arrayPush f2 (f1, key) (arrayPush f1 (f2, key) adj0)"
    have "(f2, key) \<in> set (?adj1 ! f1)" "(f1, key) \<in> set (?adj1 ! f2)"
      using Cons.prems(2,3) by (auto simp: arrayPush_def nth_list_update)
    moreover have "fold ?step (e # entries) adj0 = fold ?step entries ?adj1"
      unfolding True by simp
    ultimately show ?thesis
      using adjacency_fold_mono [of f1 ?adj1 entries] adjacency_fold_mono [of f2 ?adj1 entries]
        Cons.prems(2,3)
      by (auto simp: length_arrayPush)
  next
    case False
    with Cons.prems(1) have mem: "(key, [f1, f2]) \<in> set entries" by simp
    obtain k fi where e: "e = (k, fi)" by (cases e)
    have len: "length (?step e adj0) = length adj0"
      unfolding e by (auto simp: length_arrayPush split: list.splits)
    from Cons.IH [OF mem, of "?step e adj0"] Cons.prems(2,3) len
    show ?thesis by simp
  qed
qed

lemma sharedEdge_faceNeighbors: "sharedEdgeNeighbors m \<subseteq> faceNeighbors m"
proof
  fix p assume p: "p \<in> sharedEdgeNeighbors m"
  obtain f g where fg: "p = (f, g)" by (cases p)
  let ?fs = "faces m" and ?n = "length (faces m)"
  from p fg obtain key where
    f: "f < ?n" and g: "g < ?n" and ne: "f \<noteq> g" and
    kf: "key \<in> set (faceEdgeKeys (?fs ! f))" and kg: "key \<in> set (faceEdgeKeys (?fs ! g))" and
    cnt: "edgeUseCount ?fs key = 2"
    by (auto simp: sharedEdgeNeighbors_def)
  let ?us = "usesUpTo ?fs ?n key"
  have "length ?us = 2" using cnt by (simp add: length_usesUpTo)
  moreover have "f \<in> set ?us" "g \<in> set ?us"
    using f g kf kg by (simp_all add: set_usesUpTo)
  ultimately have us: "?us = [f, g] \<or> ?us = [g, f]" using ne by (intro two_elements)
  then have "?us \<noteq> []" by auto
  then have "map_of (edgeToFaces ?fs) key = Some ?us"
    unfolding edgeToFaces_def by (simp add: edgeToFaces_upto)
  then have mem: "(key, ?us) \<in> set (edgeToFaces ?fs)" by (rule map_of_SomeD)
  have "g \<in> fst ` set (buildFaceAdjacency m ! f)"
  proof -
    from us show ?thesis
    proof
      assume "?us = [f, g]"
      with mem have "(key, [f, g]) \<in> set (edgeToFaces ?fs)" by simp
      from adjacency_fold_pair [OF this, of "replicate ?n []"] f g
      have "(g, key) \<in> set (buildFaceAdjacency m ! f)"
        by (simp add: buildFaceAdjacency_def)
      then show ?thesis by force
    next
      assume "?us = [g, f]"
      with mem have "(key, [g, f]) \<in> set (edgeToFaces ?fs)" by simp
      from adjacency_fold_pair [OF this, of "replicate ?n []"] f g
      have "(g, key) \<in> set (buildFaceAdjacency m ! f)"
        by (simp add: buildFaceAdjacency_def)
      then show ?thesis by force
    qed
  qed
  with f g fg show "p \<in> faceNeighbors m" by (simp add: faceNeighbors_def)
qed

text \<open>
  C7, as the code has it: when the barrier edge set is empty, the mesh has at least one and
  at least \<open>minFaces\<close> faces, every face vertex is a vertex of the mesh and none is red, and
  every face can be reached from face 0 through pairs of distinct faces that have a common
  edge occurring exactly twice among the edges of all faces, then \<open>segmentWithSeams\<close>
  returns exactly one patch, and the patch holds every input face once (its \<open>k\<close>-th face is
  the input face \<open>originalFaceIndices[k]\<close> in local indices).
\<close>

theorem segmentWithSeams_no_barrier:
  assumes wf: "\<forall>f \<in> set (faces m). \<forall>v \<in> set f.
                 v < length (vertices m) \<and> v \<notin> redVertices options"
    and n: "0 < length (faces m)" and minF: "minFaces options \<le> length (faces m)"
    and conn: "\<forall>f < length (faces m). (0, f) \<in> (sharedEdgeNeighbors m)\<^sup>*"
  shows "\<exists>p. segmentWithSeams m {} options = Inr [p] \<and>
           distinct (originalFaceIndices p) \<and>
           set (originalFaceIndices p) = {..<length (faces m)} \<and>
           length (faces p) = length (faces m) \<and>
           (\<forall>k < length (faces p).
              map (\<lambda>v. localToGlobal p ! v) (faces p ! k) = faces m ! (originalFaceIndices p ! k))"
proof -
  let ?R = "redVertices options"
  have "(sharedEdgeNeighbors m)\<^sup>* \<subseteq> (faceNeighbors m)\<^sup>*"
    by (rule rtrancl_mono) (rule sharedEdge_faceNeighbors)
  with conn have conn': "\<forall>f < length (faces m). (0, f) \<in> (faceNeighbors m)\<^sup>*"
    by blast
  from floodFill_connected [OF n conn'] obtain island where
    flood: "floodFillExcludingBoundary m (buildFaceAdjacency m) {} [] = Inr [island]" and
    dist: "distinct island" and all: "set island = {..<length (faces m)}"
    by blast
  from dist all have len: "length island = length (faces m)"
    using distinct_card [of island] by simp
  with n have ne: "island \<noteq> []" by auto
  have "set island \<subseteq> {..<length (faces m)}" using all by simp
  from buildSubMeshWithKerf_clean [OF wf this ne] obtain sm where
    sm: "buildSubMeshWithKerf m island ?R = Inr (Some sm)" and
    orig: "originalFaceIndices sm = island" and lf: "length (faces sm) = length island"
    by auto
  let ?p = "sm\<lparr>internalRedVertices := Some (collectInternalRed m ?R island)\<rparr>"
  have inrange: "\<not> (\<exists>fIdx \<in> set island. \<not> fIdx < length (faces m))"
    using all by auto
  have build: "buildSubMeshes m (minFaces options) ?R [island] = Inr [?p]"
    using sm lf len minF inrange by simp
  have "segmentWithSeams m {} options = Inr [?p]"
    unfolding segmentWithSeams_def Let_def collectBoundaryFaces_empty flood
    using build len minF by (simp add: assignBoundaryFaces_none)
  moreover have "map (\<lambda>v. localToGlobal ?p ! v) (faces ?p ! k) =
      faces m ! (originalFaceIndices ?p ! k)" if "k < length (faces ?p)" for k
    using kerf_face_local(4) [OF sm, of k] that by simp
  ultimately show ?thesis using dist all orig lf len by (intro exI [of _ ?p]) simp
qed

theorem segmentWithSeams_no_barrier_witness:
  "\<exists>p. segmentWithSeams twoTrianglesMesh {} twoTrianglesOptions = Inr [p] \<and>
     distinct (originalFaceIndices p) \<and>
     set (originalFaceIndices p) = {..<length (faces twoTrianglesMesh)} \<and>
     length (faces p) = length (faces twoTrianglesMesh)"
proof -
  have wf: "\<forall>f \<in> set (faces twoTrianglesMesh). \<forall>v \<in> set f.
      v < length (vertices twoTrianglesMesh) \<and> v \<notin> redVertices twoTrianglesOptions"
    by (simp add: twoTrianglesMesh_def twoTrianglesOptions_def)
  have n: "0 < length (faces twoTrianglesMesh)" by (simp add: twoTrianglesMesh_def)
  have minF: "minFaces twoTrianglesOptions \<le> length (faces twoTrianglesMesh)"
    by (simp add: twoTrianglesMesh_def twoTrianglesOptions_def)
  have cnt: "edgeUseCount (faces twoTrianglesMesh) (1, 2) = 2"
    by code_simp
  have k0: "(1, 2) \<in> set (faceEdgeKeys (faces twoTrianglesMesh ! 0))"
    by code_simp
  have k1: "(1, 2) \<in> set (faceEdgeKeys (faces twoTrianglesMesh ! 1))"
    by code_simp
  have "length (faces twoTrianglesMesh) = 2" by (simp add: twoTrianglesMesh_def)
  with cnt k0 k1 have "(0, 1) \<in> sharedEdgeNeighbors twoTrianglesMesh"
    by (auto simp: sharedEdgeNeighbors_def)
  then have "(0, f) \<in> (sharedEdgeNeighbors twoTrianglesMesh)\<^sup>*" if "f < 2" for f
    using that by (cases "f = 0") (auto simp: less_2_cases_iff)
  then have conn: "\<forall>f < length (faces twoTrianglesMesh).
      (0, f) \<in> (sharedEdgeNeighbors twoTrianglesMesh)\<^sup>*"
    by (simp add: twoTrianglesMesh_def)
  from segmentWithSeams_no_barrier [OF wf n minF conn] show ?thesis by blast
qed

text \<open>
  C7 as stated fails. With no barrier edge, the mesh of \<open>kerfExampleMesh\<close> (two components,
  one red vertex) gives two patches, neither of which is the whole mesh, and two connected
  triangles give no patch at all under the default \<open>minFaces = 500\<close>.
\<close>

theorem segmentWithSeams_no_barrier_counterexample:
  "segmentWithSeams kerfExampleMesh {} kerfExampleOptions = Inr kerfExamplePatches \<and>
   length kerfExamplePatches = 2 \<and>
   segmentWithSeams twoTrianglesMesh {} defaultSegmentOptions = Inr []"
proof -
  have "segmentWithSeams twoTrianglesMesh {} defaultSegmentOptions = Inr []"
    by code_simp
  moreover have "segmentWithSeams kerfExampleMesh {} kerfExampleOptions = Inr kerfExamplePatches"
    by code_simp
  ultimately show ?thesis by (simp add: kerfExamplePatches_def)
qed

subsection \<open>Vertex welding (C6)\<close>

lemma set_mapPush:
  "(k', vs) \<in> set (mapPush k v h) \<Longrightarrow>
     (k', vs) \<in> set h \<or> (\<exists>ws. vs = ws @ [v] \<and> (ws = [] \<or> (k', ws) \<in> set h))"
  by (induction h) (auto split: if_splits)

lemma map_of_Some_in: "map_of h key = Some idxs \<Longrightarrow> (key, idxs) \<in> set h"
  by (rule map_of_SomeD)

lemma find_Some_in: "find P xs = Some x \<Longrightarrow> x \<in> set xs"
  by (induction xs) (auto split: if_splits)

lemma findExisting_bounded:
  assumes "hashBounded st"
    and "findExisting near v (ws_newVertices st) (ws_spatialHash st) keys = Some j"
  shows "j < length (ws_newVertices st)"
proof -
  from assms(2) have "j \<in> set (concat (map (\<lambda>key. case map_of (ws_spatialHash st) key of
      None \<Rightarrow> [] | Some idxs \<Rightarrow> idxs) keys))"
    unfolding findExisting_def by (rule find_Some_in)
  then obtain key where "j \<in> set (case map_of (ws_spatialHash st) key of
      None \<Rightarrow> [] | Some idxs \<Rightarrow> idxs)"
    by auto
  then obtain idxs where "map_of (ws_spatialHash st) key = Some idxs" "j \<in> set idxs"
    by (cases "map_of (ws_spatialHash st) key") auto
  with assms(1) show ?thesis
    unfolding hashBounded_def using map_of_SomeD by fastforce
qed

lemma hashBounded_step:
  assumes "hashBounded st"
  shows "hashBounded (weldStep hashKey keysOf near iv st)"
proof (cases "findExisting near (snd iv) (ws_newVertices st) (ws_spatialHash st) (keysOf (snd iv))")
  case None
  have "i < Suc (length (ws_newVertices st))"
    if "(key, idxs) \<in> set (mapPush (hashKey (snd iv)) (length (ws_newVertices st)) (ws_spatialHash st))"
      "i \<in> set idxs" for key idxs i
    using set_mapPush [OF that(1)] that(2) assms unfolding hashBounded_def by fastforce
  moreover have "j < Suc (length (ws_newVertices st))" if "(i, j) \<in> set (ws_vertexMap st)" for i j
    using that assms unfolding hashBounded_def by fastforce
  ultimately show ?thesis
    unfolding weldStep_def hashBounded_def None by auto
next
  case (Some j)
  from findExisting_bounded [OF assms Some] assms show ?thesis
    unfolding weldStep_def hashBounded_def Some by auto
qed

lemma hashBounded_fold:
  "hashBounded st \<Longrightarrow> hashBounded (fold (weldStep hashKey keysOf near) ivs st)"
  by (induction ivs arbitrary: st) (auto simp: hashBounded_step)

lemma hashBounded_weldAll: "hashBounded (weldAll hashKey keysOf near vs)"
  unfolding weldAll_def by (rule hashBounded_fold) (simp add: hashBounded_def)

text \<open>Welding the welded vertices again repeats the run that created them: no vertex is
  merged, and the spatial hash is rebuilt as it was.\<close>

lemma reweld_fold:
  "weldAll hashKey keysOf near
     (ws_newVertices (fold (weldStep hashKey keysOf near) ivs
        \<lparr>ws_newVertices = [], ws_vertexMap = [], ws_spatialHash = []\<rparr>)) =
   \<lparr>ws_newVertices = ws_newVertices (fold (weldStep hashKey keysOf near) ivs
        \<lparr>ws_newVertices = [], ws_vertexMap = [], ws_spatialHash = []\<rparr>),
    ws_vertexMap = map (\<lambda>i. (i, i)) [0..<length (ws_newVertices
        (fold (weldStep hashKey keysOf near) ivs
           \<lparr>ws_newVertices = [], ws_vertexMap = [], ws_spatialHash = []\<rparr>))],
    ws_spatialHash = ws_spatialHash (fold (weldStep hashKey keysOf near) ivs
        \<lparr>ws_newVertices = [], ws_vertexMap = [], ws_spatialHash = []\<rparr>)\<rparr>"
proof (induction ivs rule: rev_induct)
  case Nil
  then show ?case by (simp add: weldAll_def)
next
  case (snoc iv ivs)
  let ?st = "fold (weldStep hashKey keysOf near) ivs
        \<lparr>ws_newVertices = [], ws_vertexMap = [], ws_spatialHash = []\<rparr>"
  let ?W = "ws_newVertices ?st"
  show ?case
  proof (cases "findExisting near (snd iv) ?W (ws_spatialHash ?st) (keysOf (snd iv))")
    case (Some j)
    then have "fold (weldStep hashKey keysOf near) (ivs @ [iv])
        \<lparr>ws_newVertices = [], ws_vertexMap = [], ws_spatialHash = []\<rparr> =
        ?st\<lparr>ws_vertexMap := ws_vertexMap ?st @ [(fst iv, j)]\<rparr>"
      by (simp add: weldStep_def)
    with snoc.IH show ?thesis by simp
  next
    case None
    then have new: "fold (weldStep hashKey keysOf near) (ivs @ [iv])
        \<lparr>ws_newVertices = [], ws_vertexMap = [], ws_spatialHash = []\<rparr> =
        \<lparr>ws_newVertices = ?W @ [snd iv],
         ws_vertexMap = ws_vertexMap ?st @ [(fst iv, length ?W)],
         ws_spatialHash = mapPush (hashKey (snd iv)) (length ?W) (ws_spatialHash ?st)\<rparr>"
      by (simp add: weldStep_def)
    have "weldAll hashKey keysOf near (?W @ [snd iv]) =
        weldStep hashKey keysOf near (length ?W, snd iv) (weldAll hashKey keysOf near ?W)"
      by (simp add: weldAll_def)
    also have "\<dots> = \<lparr>ws_newVertices = ?W @ [snd iv],
         ws_vertexMap = map (\<lambda>i. (i, i)) [0..<length ?W] @ [(length ?W, length ?W)],
         ws_spatialHash = mapPush (hashKey (snd iv)) (length ?W) (ws_spatialHash ?st)\<rparr>"
      unfolding snoc.IH using None by (simp add: weldStep_def)
    finally show ?thesis unfolding new by simp
  qed
qed

lemma reweld:
  "weldAll hashKey keysOf near (ws_newVertices (weldAll hashKey keysOf near vs)) =
   \<lparr>ws_newVertices = ws_newVertices (weldAll hashKey keysOf near vs),
    ws_vertexMap = map (\<lambda>i. (i, i)) [0..<length (ws_newVertices (weldAll hashKey keysOf near vs))],
    ws_spatialHash = ws_spatialHash (weldAll hashKey keysOf near vs)\<rparr>"
  unfolding weldAll_def [of _ _ _ vs] by (rule reweld_fold)

lemma map_of_diag: "map_of (map (\<lambda>i. (i, i)) xs) i = (if i \<in> set xs then Some i else None)"
  by (induction xs) auto

lemma map_of_identity: "i < n \<Longrightarrow> map_of (map (\<lambda>i. (i, i)) [0..<n]) i = Some i"
  by (simp add: map_of_diag)

lemma remapFace_identity:
  assumes "\<forall>v \<in> set face. case v of None \<Rightarrow> True | Some j \<Rightarrow> j < n"
  shows "remapFace (map (\<lambda>i. (i, i)) [0..<n]) face = face"
  unfolding remapFace_def using assms
  by (intro map_idI) (auto simp: map_of_identity split: option.splits)

lemma remapFace_bounded:
  assumes "hashBounded st" and "v \<in> set (remapFace (ws_vertexMap st) face)"
  shows "case v of None \<Rightarrow> True | Some j \<Rightarrow> j < length (ws_newVertices st)"
proof (cases v)
  case None
  then show ?thesis by simp
next
  case (Some j)
  with assms(2) obtain i where "map_of (ws_vertexMap st) i = Some j"
    unfolding remapFace_def by (auto split: option.splits)
  then have "(i, j) \<in> set (ws_vertexMap st)" by (rule map_of_SomeD)
  with assms(1) Some show ?thesis unfolding hashBounded_def by fastforce
qed

lemma mergeWith_idempotent:
  "wm_vertices (mergeWith hashKey keysOf near (mergeWith hashKey keysOf near m)) =
     wm_vertices (mergeWith hashKey keysOf near m) \<and>
   wm_faces (mergeWith hashKey keysOf near (mergeWith hashKey keysOf near m)) =
     wm_faces (mergeWith hashKey keysOf near m) \<and>
   mergedCount (mergeWith hashKey keysOf near (mergeWith hashKey keysOf near m)) = 0"
proof -
  let ?st = "weldAll hashKey keysOf near (wm_vertices m)"
  let ?W = "ws_newVertices ?st"
  let ?F1 = "filter validFace (map (remapFace (ws_vertexMap ?st)) (wm_faces m))"
  let ?idm = "map (\<lambda>i. (i, i)) [0..<length ?W]"
  have bounded: "hashBounded ?st" by (rule hashBounded_weldAll)
  have "remapFace ?idm face = face" if "face \<in> set ?F1" for face
  proof (rule remapFace_identity)
    from that obtain face0 where "face = remapFace (ws_vertexMap ?st) face0" by auto
    with remapFace_bounded [OF bounded]
    show "\<forall>v \<in> set face. case v of None \<Rightarrow> True | Some j \<Rightarrow> j < length ?W" by blast
  qed
  then have "map (remapFace ?idm) ?F1 = ?F1" by (intro map_idI)
  then have faces: "filter validFace (map (remapFace ?idm) ?F1) = ?F1" by simp
  have v1: "wm_vertices (mergeWith hashKey keysOf near m) = ?W"
    and f1: "wm_faces (mergeWith hashKey keysOf near m) = ?F1"
    by (simp_all add: mergeWith_def Let_def)
  have st2: "weldAll hashKey keysOf near ?W =
      \<lparr>ws_newVertices = ?W, ws_vertexMap = ?idm, ws_spatialHash = ws_spatialHash ?st\<rparr>"
    by (rule reweld)
  show ?thesis
    unfolding mergeWith_def [of _ _ _ "mergeWith hashKey keysOf near m"] Let_def v1 f1 st2
    using faces by (simp add: mergeWith_def Let_def)
qed

text \<open>
  C6: welding is idempotent. For every mesh and tolerance, welding the welded mesh again
  with the same tolerance returns the same vertex list and the same face list and merges
  nothing.
\<close>

theorem mergeVertices_idempotent:
  "wm_vertices (mergeVertices (mergeVertices m tolerance) tolerance) =
     wm_vertices (mergeVertices m tolerance) \<and>
   wm_faces (mergeVertices (mergeVertices m tolerance) tolerance) =
     wm_faces (mergeVertices m tolerance) \<and>
   mergedCount (mergeVertices (mergeVertices m tolerance) tolerance) = 0"
  unfolding mergeVertices_def by (rule mergeWith_idempotent)

subsection \<open>Rounding\<close>







lemma overflow_iff:
  "(2::real) ^ n \<le> \<bar>y\<bar> \<longleftrightarrow> 1 \<le> \<bar>y\<bar> \<and> int n + 1 \<le> bitlen \<lfloor>\<bar>y\<bar>\<rfloor>"
proof -
  have "bitlen \<lfloor>\<bar>y\<bar>\<rfloor> \<le> int n \<longleftrightarrow> \<lfloor>\<bar>y\<bar>\<rfloor> < 2 ^ n"
    by (simp add: bitlen_le_iff_power)
  also have "\<dots> \<longleftrightarrow> \<bar>y\<bar> < 2 ^ n"
    by (simp add: floor_less_iff)
  finally have "int n + 1 \<le> bitlen \<lfloor>\<bar>y\<bar>\<rfloor> \<longleftrightarrow> 2 ^ n \<le> \<bar>y\<bar>"
    by linarith
  moreover have "(1::real) \<le> 2 ^ n" by simp
  ultimately show ?thesis by linarith
qed

lemma overflow_cases:
  fixes M y :: real
  assumes M: "0 < M" and iff: "M \<le> \<bar>y\<bar> \<longleftrightarrow> c"
  shows "(if M \<le> y then PosInfinity else if y \<le> - M then NegInfinity else Num y) =
         (if c then (if 0 < y then PosInfinity else NegInfinity) else Num y)"
proof -
  consider "M \<le> y" | "y \<le> - M" | "\<not> M \<le> y" "\<not> y \<le> - M" by blast
  then show ?thesis
  proof cases
    case 1
    with M have "M \<le> \<bar>y\<bar>" "0 < y" by linarith+
    with 1 iff show ?thesis by simp
  next
    case 2
    with M have "M \<le> \<bar>y\<bar>" "\<not> 0 < y" "\<not> M \<le> y" by linarith+
    with 2 iff show ?thesis by simp
  next
    case 3
    then have "\<not> M \<le> \<bar>y\<bar>" by linarith
    with 3 iff show ?thesis by simp
  qed
qed

lemma toDouble_code:
  "toDouble x =
     (if 1 \<le> \<bar>roundTo 53 (- 1074) x\<bar> \<and> 1025 \<le> bitlen \<lfloor>\<bar>roundTo 53 (- 1074) x\<bar>\<rfloor>
      then (if 0 < roundTo 53 (- 1074) x then PosInfinity else NegInfinity)
      else Num (roundTo 53 (- 1074) x))"
  unfolding toDouble_def
  by (rule overflow_cases) (simp, use overflow_iff [of 1024] in simp)

lemmas jsnum_eval =
  toDouble_code roundTo_def ilog2_def pow2_def roundHalfEven_def compute_bitlen

subsection \<open>Shelf packing (C9)\<close>



lemma padding_value: "padding = Num (5764607523034235 / 2 ^ 58)"
  unfolding padding_def by (simp add: jsnum_eval)
















lemmas pack_eval =
  arrangePatterns_def createPatternFromSubMesh_def growBounds_def arrangeStep_def wrapRow_def
  translatePattern_def padding_value maxWidth_def jsSub_def jsMax_def boundingBox_def Let_def


lemma nanExample_result:
  "arrangePatterns (map createPatternFromSubMesh nanExample) =
     [\<lparr>pat_uv = [\<lparr>uv_u = NaN, uv_v = NaN\<rparr>],
       pat_bounds = \<lparr>minU = NaN, maxU = NegInfinity, minV = NaN, maxV = NegInfinity\<rparr>\<rparr>,
      \<lparr>pat_uv = [\<lparr>uv_u = NegInfinity, uv_v = Num 0\<rparr>, \<lparr>uv_u = NegInfinity, uv_v = Num 1\<rparr>],
       pat_bounds = \<lparr>minU = NegInfinity, maxU = NegInfinity, minV = Num 0, maxV = Num 1\<rparr>\<rparr>,
      \<lparr>pat_uv = [\<lparr>uv_u = NegInfinity, uv_v = Num 0\<rparr>, \<lparr>uv_u = NegInfinity, uv_v = Num 1\<rparr>],
       pat_bounds = \<lparr>minU = NegInfinity, maxU = NegInfinity, minV = Num 0, maxV = Num 1\<rparr>\<rparr>]"
  by (simp add: nanExample_def pack_eval jsnum_eval)

lemma tallExample_result:
  "arrangePatterns (map createPatternFromSubMesh tallExample) =
     [\<lparr>pat_uv = [\<lparr>uv_u = Num 0, uv_v = Num 0\<rparr>, \<lparr>uv_u = Num 5, uv_v = Num 281474976710656\<rparr>],
       pat_bounds = \<lparr>minU = Num 0, maxU = Num 5, minV = Num 0, maxV = Num 281474976710656\<rparr>\<rparr>,
      \<lparr>pat_uv = [\<lparr>uv_u = Num 0, uv_v = Num 281474976710656\<rparr>,
                 \<lparr>uv_u = Num 1, uv_v = Num 281474976710657\<rparr>],
       pat_bounds = \<lparr>minU = Num 0, maxU = Num 1, minV = Num 281474976710656,
                     maxV = Num 281474976710657\<rparr>\<rparr>]"
  by (simp add: tallExample_def pack_eval jsnum_eval)


text \<open>
  C9 as stated fails. A patch whose UVs are \<open>NaN\<close> sends the cursor to \<open>-Infinity\<close>, and
  the two patches after it are both moved to \<open>u = -Infinity\<close>: their bounding boxes are
  the same box. A patch of height \<open>2\<^sup>48\<close> absorbs the padding in the rounding of
  \<open>currentY\<close>, and the box of the next row touches it.
\<close>

theorem arrangePatterns_counterexample:
  "pat_uv (arrangePatterns (map createPatternFromSubMesh nanExample) ! 1) =
     [\<lparr>uv_u = NegInfinity, uv_v = Num 0\<rparr>, \<lparr>uv_u = NegInfinity, uv_v = Num 1\<rparr>] \<and>
   pat_uv (arrangePatterns (map createPatternFromSubMesh nanExample) ! 2) =
     [\<lparr>uv_u = NegInfinity, uv_v = Num 0\<rparr>, \<lparr>uv_u = NegInfinity, uv_v = Num 1\<rparr>] \<and>
   \<not> boxesDisjoint
     (boundingBox (pat_uv (arrangePatterns (map createPatternFromSubMesh nanExample) ! 1)))
     (boundingBox (pat_uv (arrangePatterns (map createPatternFromSubMesh nanExample) ! 2))) \<and>
   boundingBox (pat_uv (arrangePatterns (map createPatternFromSubMesh tallExample) ! 0)) =
     \<lparr>minU = Num 0, maxU = Num 5, minV = Num 0, maxV = Num (2 ^ 48)\<rparr> \<and>
   boundingBox (pat_uv (arrangePatterns (map createPatternFromSubMesh tallExample) ! 1)) =
     \<lparr>minU = Num 0, maxU = Num 1, minV = Num (2 ^ 48), maxV = Num (2 ^ 48 + 1)\<rparr> \<and>
   \<not> boxesDisjoint
     (boundingBox (pat_uv (arrangePatterns (map createPatternFromSubMesh tallExample) ! 0)))
     (boundingBox (pat_uv (arrangePatterns (map createPatternFromSubMesh tallExample) ! 1)))"
  by (simp add: nanExample_result tallExample_result boundingBox_def boxesDisjoint_def)

subsection \<open>Cylinder repair (C1)\<close>

lemma band_topology: "computeEuler bandMesh = bandTopology"
  by code_simp

lemma band_loops: "separateBoundaryLoops (boundaryEdges bandTopology) = [[0, 1, 2], [3, 4, 5]]"
  by code_simp

lemma band_bridge:
  "findShortestBridge bandMesh [0, 1, 2] [3, 4, 5] =
     Inr (Some \<lparr>startV = 0, endV = 3, bridgeDistance = 1\<rparr>)"
  by (simp add: findShortestBridge_def sampleLoop_def bridgeStep_def vertexDistance_def
      distance_def bandMesh_def asSubMesh_def plainVertex_def)

lemma band_path: "findGeodesicPath bandMesh 0 3 = Inr [0, 3]"
  by code_simp

lemma band_snap: "snapPathToBoundary bandMesh [0, 3] [0, 1, 2] [3, 4, 5] = Inr [0, 3]"
  by (simp add: snapPathToBoundary_def)

lemma band_cut: "cutMeshAlongPath emptyObject bandMesh [0, 3] = []"
  by code_simp

text \<open>
  C1 on the code: the band is a cylinder (\<open>\<chi> = 0\<close>, two boundary loops). \<open>repairCylinder\<close>
  finds the bridge from vertex 0 to vertex 3 and the path \<open>[0, 3]\<close>, but
  \<open>cutMeshAlongPath\<close> only regroups the faces by adjacency and duplicates no vertex: the
  faces stay connected around the band, the cut counts as failed, and both \<open>repairAll\<close> and
  step 1.2 of \<open>flattenMesh\<close> keep the uncut patch, whose Euler characteristic is still 0.
\<close>

theorem repairCylinder_band:
  "euler (computeEuler bandMesh) = 0 \<and> boundaryLoopCount (computeEuler bandMesh) = 2 \<and>
   repairCylinder emptyObject bandMesh (computeEuler bandMesh) = Inr None \<and>
   cylinderSurgery emptyObject bandMesh = Inr (bandMesh, True) \<and>
   repairAll emptyObject [bandMesh] 1 = Inr [bandMesh]"
proof -
  have rc: "repairCylinder emptyObject bandMesh bandTopology = Inr None"
    by (simp add: repairCylinder_def band_loops [simplified] band_bridge [simplified]
        band_path [simplified] band_snap [simplified] band_cut [simplified])
  have len: "\<not> length (faces bandMesh) < 1" by (simp add: bandMesh_def asSubMesh_def)
  show ?thesis
    using rc len
    by (simp add: band_topology cylinderSurgery_def repairOne_def Let_def bandTopology_def)
qed

subsection \<open>Complex patches in the topology repair (C8)\<close>

lemma repairAll_append:
  "repairAll emptyObject (xs @ ys) minF =
     (case repairAll emptyObject xs minF of
        Inl e \<Rightarrow> Inl e
      | Inr rs \<Rightarrow>
          (case repairAll emptyObject ys minF of
             Inl e \<Rightarrow> Inl e
           | Inr rest \<Rightarrow> Inr (rs @ rest)))"
  by (induction xs) (auto split: sum.splits)

text \<open>
  C8, as the code has it: a patch with \<open>\<chi> < -1\<close> that has at least \<open>minFaces\<close> faces is
  put into the results of \<open>repairAll\<close> unchanged, at its place, and nothing is computed
  on it but its topology.
\<close>

theorem repairAll_skips_complex:
  assumes "euler (computeEuler m) < -1" and "minF \<le> length (faces m)"
  shows "repairAll emptyObject (before @ m # after) minF =
           (case repairAll emptyObject before minF of
              Inl e \<Rightarrow> Inl e
            | Inr rs \<Rightarrow>
                (case repairAll emptyObject after minF of
                   Inl e \<Rightarrow> Inl e
                 | Inr rest \<Rightarrow> Inr (rs @ m # rest)))"
proof -
  from assms have "repairOne emptyObject minF m = Inr [m]"
    by (simp add: repairOne_def Let_def)
  then show ?thesis
    by (simp add: repairAll_append split: sum.splits)
qed

lemma fan_path: "findGeodesicPath fanMesh 3 6 = Inr [3, 0, 6]"
  by code_simp

lemma fan_cut:
  "cutMeshAlongPath emptyObject fanMesh [3, 0, 6] =
     map (createSubMesh emptyObject fanMesh) [[0], [1], [2], [3]]"
  by code_simp

lemma complex_topology: "computeEuler complexMesh = complexTopology"
  by code_simp

theorem repairAll_skips_complex_witness:
  "euler (computeEuler complexMesh) = -2 \<and>
   repairAll (plainVertex 0 0 0) ([] @ complexMesh # []) 1 = Inr [complexMesh]"
proof -
  have e: "euler (computeEuler complexMesh) < -1"
    by (simp add: complex_topology complexTopology_def)
  have f: "1 \<le> length (faces complexMesh)" by (simp add: complexMesh_def asSubMesh_def)
  from repairAll_skips_complex [OF e f, of "plainVertex 0 0 0" "[]" "[]"]
  show ?thesis by (simp add: complex_topology complexTopology_def)
qed

lemma fan_topology: "computeEuler fanMesh = fanTopology"
  by code_simp

lemma fan_pairs:
  "farthestPairs (boundaryVertexArray fanTopology) =
     [(0,1),(0,2),(0,3),(0,4),(0,5),(0,6),(1,2),(1,3),(1,4),(1,5),(1,6),(2,3),(2,4),(2,5),(2,6),
      (3,4),(3,5),(3,6),(4,5),(4,6),(5,6)]"
  by code_simp

lemma sqrt_less_3: "sqrt x < 3 \<longleftrightarrow> x < 9"
  using real_sqrt_less_iff [of x 9] by simp

lemma less_3_sqrt: "3 < sqrt x \<longleftrightarrow> 9 < x"
  using real_sqrt_less_iff [of 9 x] by simp

lemma fan_farthest: "farthestBoundaryPair fanMesh fanTopology = Inr (3, 3, 6)"
  unfolding farthestBoundaryPair_def fan_pairs
  by (simp add: fanTopology_def farthestStep_def vertexDistance_def distance_def fanMesh_def
      asSubMesh_def plainVertex_def sqrt_less_3 less_3_sqrt)

lemma fan_generic:
  "repairGeneric emptyObject fanMesh fanTopology =
     Inr (map (createSubMesh emptyObject fanMesh) [[0], [1], [2], [3]])"
proof -
  have "boundaryEdges fanTopology \<noteq> []" by (simp add: fanTopology_def)
  then show ?thesis
    unfolding repairGeneric_def fan_farthest
    by (simp add: fan_path [simplified] fan_cut [simplified])
qed

text \<open>
  C8 as stated fails at \<open>\<chi> = -1\<close>: \<open>repairAll\<close> hands such a patch to \<open>repairGeneric\<close>,
  which here cuts the four triangles apart.
\<close>

theorem repairAll_minus_one_counterexample:
  "euler (computeEuler fanMesh) = -1 \<and>
   repairAll (plainVertex 0 0 0) [fanMesh] 1 =
     Inr (map (createSubMesh (plainVertex 0 0 0) fanMesh) [[0], [1], [2], [3]]) \<and>
   repairAll (plainVertex 0 0 0) [fanMesh] 1 \<noteq> Inr [fanMesh]"
proof -
  have "\<not> length (faces fanMesh) < 1" by (simp add: fanMesh_def asSubMesh_def)
  then have "repairAll (plainVertex 0 0 0) [fanMesh] 1 =
      Inr (map (createSubMesh (plainVertex 0 0 0) fanMesh) [[0], [1], [2], [3]])"
    by (simp add: repairOne_def fan_topology Let_def fan_generic) (simp add: fanTopology_def)
  then show ?thesis by (simp add: fan_topology fanTopology_def)
qed

subsection \<open>Drift cancellation of the relaxer (C5)\<close>




lemma length_addAt: "length (addAt i d xs) = length xs"
  by (simp add: addAt_def)






lemma length_applySpring: "length (applySpring uvs c forces) = length forces"
  by (simp add: applySpring_def length_addAt split: option.splits prod.splits)

























end
